theory Spec2Isabelle
  imports Main "HOL-Library.AList"
begin

section \<open>JavaScript values\<close>

text \<open>
  A property of a JavaScript object is absent (\<open>undefined\<close>), \<open>null\<close>, or holds a value.
  The identifiers handled here are strings; a string is truthy when it is not empty.
\<close>

datatype 'a js = Undefined | Null | Val 'a

fun truthy :: "string js \<Rightarrow> bool" where
  "truthy (Val s) = (s \<noteq> [])"
| "truthy _ = False"

text \<open>A template literal renders \<open>null\<close> and \<open>undefined\<close> by their names.\<close>

fun render :: "string js \<Rightarrow> string" where
  "render (Val s) = s"
| "render Null = ''null''"
| "render Undefined = ''undefined''"

section \<open>Identity cache (lookupCache.js)\<close>

text \<open>The entry stored by \<open>cache.set\<close>: \<open>{ tiendaId, usuarioId, slug, sessionStartTs, expires }\<close>.\<close>

record cacheEntry =
  ce_tiendaId :: "string js"
  ce_usuarioId :: "string js"
  ce_slug :: string
  ce_sessionStartTs :: int
  ce_expires :: int

text \<open>\<open>const cache = new Map()\<close>, keyed by \<open>chatId\<close>.\<close>

type_synonym cache = "string \<rightharpoonup> cacheEntry"

text \<open>
  The payload built by the webhook handler, with its \<open>meta\<close> block and the descriptor
  of a voice note; \<open>tiendaId\<close>, \<open>usuarioId\<close> and \<open>expires\<close> are the properties the
  enrichment adds.
\<close>

record audioData =
  ad_base64 :: "string js"
  ad_mimetype :: string
  ad_seconds :: nat

record meta =
  m_chatId :: string
  m_slug :: string
  m_pushName :: string
  m_remoteJid :: string
  m_messageId :: string
  m_instanceName :: "string js"
  m_firstInSession :: bool
  m_sessionStartTs :: int
  m_profileReady :: bool
  m_messageType :: string
  m_audio :: "audioData option"

record payload =
  p_text :: string
  p_messageType :: string
  p_ts :: int
  p_chatId :: string
  p_tiendaSlug :: string
  p_slug :: string
  p_telefono :: "string js"
  p_instanceName :: "string js"
  p_profileReady :: bool
  p_firstInSession :: bool
  p_sessionStartTs :: int
  p_tiendaId :: "string js"
  p_usuarioId :: "string js"
  p_expires :: "int option"
  p_audio :: "audioData option"
  p_meta :: meta

text \<open>
  The paths of the store read by the enrichment: \<open>/tiendas_por_slug/{slug}\<close>,
  \<open>/usuarios_por_identidad/{chatId}\<close>, \<open>/usuarios_por_telefono/{phone}\<close> and
  \<open>/sesiones_index/{tiendaId}/{usuarioId}\<close>, whose value carries the field
  \<open>sessionStartTs\<close> (\<open>None\<close> when the field is missing). The routing paths read by
  the delivery loop are \<open>/chat_instances/{slug}/{chatId}\<close> (its field \<open>instanceName\<close>),
  \<open>/evolution_instances/{name}\<close> (fields \<open>apiKey\<close> and \<open>slug\<close>) and
  \<open>/tiendas/{tiendaId}/evolution\<close> (fields \<open>instanceName\<close> and \<open>apiKey\<close>). A read of
  an unreachable store rejects; \<open>db_unavailable\<close> says so.
\<close>

record instance_cfg =
  ic_apiKey :: "string js"
  ic_slug :: "string js"

record db =
  tiendas_por_slug :: "string \<rightharpoonup> string"
  usuarios_por_identidad :: "string \<rightharpoonup> string"
  usuarios_por_telefono :: "string \<rightharpoonup> string"
  sesiones_index :: "string \<times> string \<rightharpoonup> int option"
  chat_instances :: "string \<times> string \<rightharpoonup> string js"
  evolution_instances :: "string \<rightharpoonup> instance_cfg"
  tiendas_evolution :: "string \<rightharpoonup> string js \<times> string js"
  db_unavailable :: bool

text \<open>\<open>snap.val()\<close> is \<open>null\<close> where nothing is stored.\<close>

definition snap_val :: "string option \<Rightarrow> string js" where
  "snap_val v = (case v of None \<Rightarrow> Null | Some s \<Rightarrow> Val s)"

definition is_digit :: "char \<Rightarrow> bool" where
  "is_digit c = (c \<in> set ''0123456789'')"

text \<open>\<open>normalizePhone\<close>: \<open>null\<close> for a falsy phone, else \<open>+\<close> followed by the digits.\<close>

definition normalizePhone :: "string js \<Rightarrow> string js" where
  "normalizePhone phone =
     (if \<not> truthy phone then Null
      else Val (CHR ''+'' # filter is_digit (render phone)))"

text \<open>\<open>cached && cached.expires > now\<close>: the live entry of a conversation, if any.\<close>

definition cache_fresh :: "cache \<Rightarrow> string \<Rightarrow> int \<Rightarrow> cacheEntry option" where
  "cache_fresh cache chatId now =
     (case cache chatId of
        None \<Rightarrow> None
      | Some cached \<Rightarrow> if ce_expires cached > now then Some cached else None)"

text \<open>
  The cache-hit branch: \<open>Object.assign(payload, cached)\<close> copies the five fields of the
  entry, then both flags are forced.
\<close>

definition assign_cached :: "payload \<Rightarrow> cacheEntry \<Rightarrow> payload" where
  "assign_cached payload cached =
     payload\<lparr> p_tiendaId := ce_tiendaId cached,
              p_usuarioId := ce_usuarioId cached,
              p_slug := ce_slug cached,
              p_sessionStartTs := ce_sessionStartTs cached,
              p_expires := Some (ce_expires cached),
              p_profileReady := True,
              p_firstInSession := False,
              p_meta := (p_meta payload)\<lparr> m_profileReady := True, m_firstInSession := False \<rparr> \<rparr>"

text \<open>The user id: by conversation identity, then by normalized phone number.\<close>

definition lookup_usuarioId :: "db \<Rightarrow> string \<Rightarrow> string js \<Rightarrow> string js" where
  "lookup_usuarioId d chatId telefono =
     (let usuarioId = snap_val (usuarios_por_identidad d chatId) in
      if \<not> truthy usuarioId \<and> truthy telefono then
        (case normalizePhone telefono of
           Val normalizedPhone \<Rightarrow>
             (if normalizedPhone \<noteq> [] then
                (case usuarios_por_telefono d normalizedPhone of
                   Some u \<Rightarrow> Val u
                 | None \<Rightarrow> usuarioId)
              else usuarioId)
         | _ \<Rightarrow> usuarioId)
      else usuarioId)"

text \<open>
  The session lookup: \<open>firstInSession\<close> and \<open>sessionStartTs\<close>, where \<open>now2\<close> is the
  second reading of the clock (\<open>let sessionStartTs = Date.now()\<close>) and
  \<open>val().sessionStartTs || sessionStartTs\<close> falls back on a missing or zero field.
\<close>

definition lookup_session :: "db \<Rightarrow> string js \<Rightarrow> string js \<Rightarrow> int \<Rightarrow> bool \<times> int" where
  "lookup_session d tiendaId usuarioId now2 =
     (if truthy usuarioId then
        (case sesiones_index d (render tiendaId, render usuarioId) of
           Some v \<Rightarrow> (False, (case v of Some t \<Rightarrow> if t \<noteq> 0 then t else now2 | None \<Rightarrow> now2))
         | None \<Rightarrow> (True, now2))
      else (True, now2))"

text \<open>
  \<open>enrichWhatsAppPayload\<close>, with the two readings of the clock as arguments and the cache
  passed through. \<open>Inl\<close> is the rejection of a store read, which happens before
  \<open>cache.set\<close>.
\<close>

definition enrichWhatsAppPayload ::
  "db \<Rightarrow> int \<Rightarrow> int \<Rightarrow> payload \<Rightarrow> cache \<Rightarrow> string + (payload \<times> cache)" where
  "enrichWhatsAppPayload d now now2 payload cache =
     (let chatId = p_chatId payload; tiendaSlug = p_tiendaSlug payload;
          telefono = p_telefono payload in
      case cache_fresh cache chatId now of
        Some cached \<Rightarrow> Inr (assign_cached payload cached, cache)
      | None \<Rightarrow>
          if db_unavailable d then Inl ''store read rejected''
          else
            (let tiendaId = snap_val (tiendas_por_slug d tiendaSlug);
                 usuarioId = lookup_usuarioId d chatId telefono;
                 profileReady = truthy usuarioId;
                 (firstInSession, sessionStartTs) = lookup_session d tiendaId usuarioId now2;
                 cache' = cache(chatId \<mapsto>
                            \<lparr> ce_tiendaId = tiendaId, ce_usuarioId = usuarioId,
                              ce_slug = tiendaSlug, ce_sessionStartTs = sessionStartTs,
                              ce_expires = now + 60000 \<rparr>)
             in Inr (payload\<lparr> p_tiendaId := tiendaId,
                               p_profileReady := profileReady,
                               p_firstInSession := firstInSession,
                               p_sessionStartTs := sessionStartTs,
                               p_meta := (p_meta payload)\<lparr> m_profileReady := profileReady,
                                                           m_firstInSession := firstInSession \<rparr> \<rparr>,
                     cache')))"


text \<open>
  Successive calls on the process-wide cache, each with the store and the clock readings
  it meets; a rejected call has not reached \<open>cache.set\<close>.
\<close>

fun enrich_calls ::
  "(db \<times> int \<times> int \<times> payload) list \<Rightarrow> cache \<Rightarrow> (string + payload) list \<times> cache" where
  "enrich_calls [] cache = ([], cache)"
| "enrich_calls ((d, now, now2, payload) # rest) cache =
     (case enrichWhatsAppPayload d now now2 payload cache of
        Inl err \<Rightarrow> (let (rs, cache') = enrich_calls rest cache in (Inl err # rs, cache'))
      | Inr (q, cache1) \<Rightarrow> (let (rs, cache') = enrich_calls rest cache1 in (Inr q # rs, cache')))"

section \<open>Outbound delivery loop (server.js)\<close>

text \<open>
  A pending response lives at \<open>/respuestas/{slug}/{chatId}/{responseId}\<close>. Its \<open>text\<close> may
  be missing or of any JSON type, \<open>ts\<close> is a number or missing, \<open>enviado\<close> a boolean or
  missing.
\<close>

type_synonym path = "string \<times> string \<times> string"

datatype jsval = JBool bool | JNum int | JStr string

record response =
  r_text :: "jsval option"
  r_ts :: "int option"
  r_enviado :: "bool option"

text \<open>
  The subtree \<open>/respuestas\<close> as the list of its leaves in iteration order; the keys of
  an object are distinct, so a path occurs once.
\<close>

type_synonym respuestas = "(path \<times> response) list"

text \<open>What the loop does to the outside: store writes, gateway calls and timer waits.\<close>

datatype event =
    Remove path
  | Claim path bool
  | SendText path string string string bool
  | Sleep int

record loop_state =
  respuestas :: respuestas
  processedResponses :: "path set"
  gw_calls :: nat

text \<open>
  The configuration of a process: its start time, the store paths it reads for routing,
  and the gateway, whose \<open>n\<close>-th call succeeds iff \<open>gw n\<close>.
\<close>

record config =
  serviceStartupTime :: int
  cfg_db :: db
  gw :: "nat \<Rightarrow> bool"

datatype outcome = Resolved | Rejected

definition startsWith :: "string \<Rightarrow> string \<Rightarrow> bool" where
  "startsWith s pat = (take (length pat) s = pat)"

text \<open>\<open>s.replace(pat, '')\<close> with a string pattern removes its first occurrence.\<close>

fun remove_first :: "string \<Rightarrow> string \<Rightarrow> string" where
  "remove_first pat [] = []"
| "remove_first pat (c # cs) =
     (if startsWith (c # cs) pat then drop (length pat) (c # cs)
      else c # remove_first pat cs)"

text \<open>\<open>!text || typeof text !== 'string'\<close> fails exactly on a non-empty string.\<close>

fun usable_text :: "jsval option \<Rightarrow> string option" where
  "usable_text (Some (JStr s)) = (if s = [] then None else Some s)"
| "usable_text _ = None"

text \<open>\<open>response.ts || 0\<close>\<close>

definition messageTimestamp :: "response \<Rightarrow> int" where
  "messageTimestamp response = (case r_ts response of Some t \<Rightarrow> t | None \<Rightarrow> 0)"

text \<open>
  The store's transaction on the child \<open>enviado\<close> with the update function
  \<open>currentValue === true ? undefined : true\<close>: it aborts on \<open>true\<close> and otherwise commits
  \<open>true\<close>. The child of a path that holds nothing is absent, and committing creates it.
\<close>

definition transaction_enviado :: "respuestas \<Rightarrow> path \<Rightarrow> bool \<times> respuestas" where
  "transaction_enviado store responsePath =
     (case map_of store responsePath of
        Some response \<Rightarrow>
          if r_enviado response = Some True then (False, store)
          else (True, AList.update responsePath (response\<lparr> r_enviado := Some True \<rparr>) store)
      | None \<Rightarrow>
          (True, AList.update responsePath
                   \<lparr> r_text = None, r_ts = None, r_enviado = Some True \<rparr> store))"

text \<open>
  Routing: the instance recorded for the conversation if it is registered, else the
  primary instance of the store.
\<close>

definition resolve_instance :: "db \<Rightarrow> string \<Rightarrow> string \<Rightarrow> string js \<times> string js" where
  "resolve_instance d slug chatId =
     (let mapped =
        (case chat_instances d (slug, chatId) of
           Some mappedInstance \<Rightarrow>
             (case evolution_instances d (render mappedInstance) of
                Some instanceLookup \<Rightarrow> (mappedInstance, ic_apiKey instanceLookup)
              | None \<Rightarrow> (Null, Null))
         | None \<Rightarrow> (Null, Null))
      in if \<not> truthy (fst mapped) then
           (case tiendas_por_slug d slug of
              Some tiendaId \<Rightarrow>
                (case tiendas_evolution d tiendaId of
                   Some evolution \<Rightarrow> evolution
                 | None \<Rightarrow> mapped)
            | None \<Rightarrow> mapped)
         else mapped)"

text \<open>
  One \<open>evolution.post('/message/sendText/...')\<close>: the call is counted and recorded; a
  failed call rejects.
\<close>

definition post_sendText ::
  "config \<Rightarrow> path \<Rightarrow> string \<Rightarrow> string \<Rightarrow> string \<Rightarrow> loop_state \<Rightarrow> outcome \<times> event list \<times> loop_state" where
  "post_sendText cfg responsePath instanceName phoneNumber text st =
     (let ok = gw cfg (gw_calls st) in
      (if ok then Resolved else Rejected,
       [SendText responsePath instanceName phoneNumber text ok],
       st\<lparr> gw_calls := Suc (gw_calls st) \<rparr>))"

text \<open>
  \<open>retryWithBackoff\<close>: the loop \<open>for (attempt = 1; attempt <= maxRetries; attempt++)\<close> as
  recursion over the attempts left. A success returns, the last failure rethrows, any
  other failure waits \<open>delayMs * 2^(attempt - 1)\<close> and goes on. A loop that runs no
  attempt returns.
\<close>

fun retry_attempts ::
  "nat list \<Rightarrow> (loop_state \<Rightarrow> outcome \<times> event list \<times> loop_state) \<Rightarrow> nat \<Rightarrow> int \<Rightarrow>
   loop_state \<Rightarrow> outcome \<times> event list \<times> loop_state" where
  "retry_attempts [] fn maxRetries delayMs st = (Resolved, [], st)"
| "retry_attempts (attempt # rest) fn maxRetries delayMs st =
     (case fn st of
        (Resolved, evs, st') \<Rightarrow> (Resolved, evs, st')
      | (Rejected, evs, st') \<Rightarrow>
          if attempt = maxRetries then (Rejected, evs, st')
          else
            (let delay = delayMs * 2 ^ (attempt - 1);
                 (res, evs', st'') = retry_attempts rest fn maxRetries delayMs st'
             in (res, evs @ [Sleep delay] @ evs', st'')))"

definition retryWithBackoff ::
  "(loop_state \<Rightarrow> outcome \<times> event list \<times> loop_state) \<Rightarrow> nat \<Rightarrow> int \<Rightarrow>
   loop_state \<Rightarrow> outcome \<times> event list \<times> loop_state" where
  "retryWithBackoff fn maxRetries delayMs st =
     retry_attempts [1..<Suc maxRetries] fn maxRetries delayMs st"

text \<open>
  The body of \<open>try\<close> for a claimed entry: routing, then the send with retries. A rejected
  store read or a send that exhausted its retries leaves the block by an exception.
\<close>

definition send_claimed ::
  "config \<Rightarrow> path \<Rightarrow> string \<Rightarrow> loop_state \<Rightarrow> outcome \<times> event list \<times> loop_state" where
  "send_claimed cfg responsePath text st =
     (let (slug, chatId, responseId) = responsePath;
          phoneNumber = remove_first ''web_'' chatId in
      if db_unavailable (cfg_db cfg) then (Rejected, [], st)
      else
        (let (instanceName, apiKey) = resolve_instance (cfg_db cfg) slug chatId in
         if truthy instanceName \<and> truthy apiKey then
           retryWithBackoff
             (post_sendText cfg responsePath (render instanceName) phoneNumber text) 3 1000 st
         else (Resolved, [], st)))"

text \<open>
  The body of the innermost loop for one leaf of the snapshot: \<open>response\<close> is the value
  read in the snapshot, the state holds the store as it is now.
\<close>

definition process_entry :: "config \<Rightarrow> path \<times> response \<Rightarrow> loop_state \<Rightarrow> event list \<times> loop_state" where
  "process_entry cfg entry st =
     (let (responsePath, response) = entry in
      if r_enviado response = Some True then
        ([Remove responsePath],
         st\<lparr> respuestas := AList.delete responsePath (respuestas st),
             processedResponses := processedResponses st - {responsePath} \<rparr>)
      else if responsePath \<in> processedResponses st then ([], st)
      else
        (let st1 = st\<lparr> processedResponses := insert responsePath (processedResponses st) \<rparr> in
         case usable_text (r_text response) of
           None \<Rightarrow>
             ([Remove responsePath],
              st1\<lparr> respuestas := AList.delete responsePath (respuestas st1) \<rparr>)
         | Some text \<Rightarrow>
             if messageTimestamp response < serviceStartupTime cfg then
               ([Remove responsePath],
                st1\<lparr> respuestas := AList.delete responsePath (respuestas st1) \<rparr>)
             else
               (let (committed, store') = transaction_enviado (respuestas st1) responsePath in
                if \<not> committed then ([Claim responsePath False], st1)
                else
                  (let st2 = st1\<lparr> respuestas := store' \<rparr>;
                       (res, evs, st3) = send_claimed cfg responsePath text st2
                   in ([Claim responsePath True] @ evs @ [Remove responsePath],
                       st3\<lparr> respuestas := AList.delete responsePath (respuestas st3),
                            processedResponses := processedResponses st3 - {responsePath} \<rparr>)))))"

text \<open>The chat loop skips every conversation whose id does not start with \<open>web_\<close>.\<close>

definition tick_entry :: "config \<Rightarrow> path \<times> response \<Rightarrow> loop_state \<Rightarrow> event list \<times> loop_state" where
  "tick_entry cfg entry st =
     (let (slug, chatId, responseId) = fst entry in
      if \<not> startsWith chatId ''web_'' then ([], st) else process_entry cfg entry st)"

fun run_entries :: "config \<Rightarrow> (path \<times> response) list \<Rightarrow> loop_state \<Rightarrow> event list \<times> loop_state" where
  "run_entries cfg [] st = ([], st)"
| "run_entries cfg (entry # rest) st =
     (let (evs, st') = tick_entry cfg entry st;
          (evs', st'') = run_entries cfg rest st'
      in (evs @ evs', st''))"

text \<open>One tick: read the subtree once, then go through the snapshot.\<close>

definition tick :: "config \<Rightarrow> loop_state \<Rightarrow> event list \<times> loop_state" where
  "tick cfg st = run_entries cfg (respuestas st) st"

text \<open>
  Successive ticks of one process. Between two ticks other writers change the subtree:
  each tick starts from the subtree it finds.
\<close>

fun run_ticks :: "config \<Rightarrow> respuestas list \<Rightarrow> loop_state \<Rightarrow> event list \<times> loop_state" where
  "run_ticks cfg [] st = ([], st)"
| "run_ticks cfg (found # later) st =
     (let (evs, st') = tick cfg (st\<lparr> respuestas := found \<rparr>);
          (evs', st'') = run_ticks cfg later st'
      in (evs @ evs', st''))"


text \<open>The entry an event is about, and the gateway calls among the events.\<close>

fun about :: "event \<Rightarrow> path option" where
  "about (Remove p) = Some p"
| "about (Claim p committed) = Some p"
| "about (SendText p instanceName number text ok) = Some p"
| "about (Sleep delay) = None"

fun is_send :: "event \<Rightarrow> bool" where
  "is_send (SendText p instanceName number text ok) = True"
| "is_send _ = False"

fun is_sleep :: "event \<Rightarrow> bool" where
  "is_sleep (Sleep delay) = True"
| "is_sleep _ = False"

subsection \<open>Several processes on one store\<close>

text \<open>
  Every process runs the loop above with its own start time, its own set
  \<open>processedResponses\<close> and its own snapshot; the subtree and the gateway are shared.
  A process acts by reading the subtree (\<open>Snapshot\<close>) or by running the loop body on the
  next leaf of its snapshot against the subtree as it is now (\<open>Entry\<close>).
\<close>

record process =
  pr_startup :: int
  pr_processed :: "path set"
  pr_snapshot :: "(path \<times> response) list"

record system =
  sys_respuestas :: respuestas
  sys_gw_calls :: nat
  sys_processes :: "process list"

datatype action = Snapshot nat | Entry nat

definition sys_step ::
  "db \<Rightarrow> (nat \<Rightarrow> bool) \<Rightarrow> action \<Rightarrow> system \<Rightarrow> (nat \<times> event) list \<times> system" where
  "sys_step d g a sys =
     (case a of
        Snapshot i \<Rightarrow>
          if i < length (sys_processes sys) then
            ([], sys\<lparr> sys_processes :=
                        (sys_processes sys)[i := (sys_processes sys ! i)
                                                  \<lparr> pr_snapshot := sys_respuestas sys \<rparr>] \<rparr>)
          else ([], sys)
      | Entry i \<Rightarrow>
          if i < length (sys_processes sys) then
            (let pr = sys_processes sys ! i in
             case pr_snapshot pr of
               [] \<Rightarrow> ([], sys)
             | entry # rest \<Rightarrow>
                 (let (evs, st) =
                        tick_entry \<lparr> serviceStartupTime = pr_startup pr, cfg_db = d, gw = g \<rparr> entry
                          \<lparr> respuestas = sys_respuestas sys,
                            processedResponses = pr_processed pr,
                            gw_calls = sys_gw_calls sys \<rparr>
                  in (map (Pair i) evs,
                      sys\<lparr> sys_respuestas := respuestas st,
                           sys_gw_calls := gw_calls st,
                           sys_processes :=
                             (sys_processes sys)[i := pr\<lparr> pr_processed := processedResponses st,
                                                        pr_snapshot := rest \<rparr>] \<rparr>)))
          else ([], sys))"

fun run_system ::
  "db \<Rightarrow> (nat \<Rightarrow> bool) \<Rightarrow> action list \<Rightarrow> system \<Rightarrow> (nat \<times> event) list \<times> system" where
  "run_system d g [] sys = ([], sys)"
| "run_system d g (a # as) sys =
     (let (evs, sys') = sys_step d g a sys;
          (evs', sys'') = run_system d g as sys'
      in (evs @ evs', sys''))"

section \<open>Inbound webhook (server.js)\<close>

text \<open>The fields of the request body read by \<open>app.post("/webhook/evolution")\<close>.\<close>

record audioMessage =
  am_mimetype :: "string js"
  am_seconds :: "nat option"

record webhook_body =
  wb_event :: "string js"
  wb_instance :: "string js"
  wb_fromMe :: "bool option"
  wb_remoteJid :: "string js"
  wb_keyId :: "string js"
  wb_audioMessage :: "audioMessage option"
  wb_conversation :: "string js"
  wb_extendedText :: "string js"
  wb_messageTimestamp :: "int option"
  wb_pushName :: "string js"

text \<open>
  What the request meets outside the process: the readings of the clock, the answer of
  the media download, and which of its own store and gateway calls reject. The store
  reads of the enrichment reject with \<open>db_unavailable\<close>.
\<close>

record request_env =
  env_now :: int
  env_now_enrich :: int
  env_now_session :: int
  env_media_base64 :: "string js"
  env_instance_read_fails :: bool
  env_media_download_fails :: bool
  env_slug_read_fails :: bool
  env_binding_write_fails :: bool
  env_push_fails :: bool

datatype reply =
    EventIgnored
  | OwnMessageIgnored
  | MissingRemoteJid
  | EmptyMessageIgnored
  | Accepted string string
  | ErrorReply

text \<open>
  The calls of the handler that leave the process, in the order they are made: each
  call is recorded when it is made, a rejected call is followed by the log of the error.
\<close>

datatype effect =
    Respond nat reply
  | AudioConfigRead string
  | MediaDownload string string
  | SlugLookup string
  | SetChatInstance string string "string js" int
  | Enrich string
  | PushMensaje string string payload
  | LogError

definition is_space :: "char \<Rightarrow> bool" where
  "is_space c = (c \<in> set [CHR '' '', CHR 0x09, CHR 0x0A, CHR 0x0B, CHR 0x0C, CHR 0x0D])"

text \<open>\<open>!text.trim()\<close>\<close>

definition blank :: "string \<Rightarrow> bool" where
  "blank s = list_all is_space s"

fun show_nat :: "nat \<Rightarrow> string" where
  "show_nat n =
     (if n < 10 then [''0123456789'' ! n]
      else show_nat (n div 10) @ [''0123456789'' ! (n mod 10)])"

declare show_nat.simps [simp del]

text \<open>\<open>a || b\<close> on strings\<close>

definition js_or :: "string js \<Rightarrow> string js \<Rightarrow> string js" where
  "js_or a b = (if truthy a then a else b)"

text \<open>\<open>s.replace(/_\d+$/, '')\<close>: a final \<open>_\<close> followed by digits only is cut off.\<close>

definition strip_number_suffix :: "string \<Rightarrow> string" where
  "strip_number_suffix s =
     (let r = rev s; ds = takeWhile is_digit r; rest = dropWhile is_digit r in
      case rest of
        c # rest' \<Rightarrow> if ds \<noteq> [] \<and> c = CHR ''_'' then rev rest' else s
      | [] \<Rightarrow> s)"

text \<open>\<open>s.replace(/^colmado_/, '')\<close>\<close>

definition strip_colmado_prefix :: "string \<Rightarrow> string" where
  "strip_colmado_prefix s = (if startsWith s ''colmado_'' then drop 8 s else s)"

definition parsed_slug :: "string js \<Rightarrow> string" where
  "parsed_slug instance =
     (if truthy instance then strip_number_suffix (strip_colmado_prefix (render instance))
      else ''unknown'')"

text \<open>
  The slug of the instance: from \<open>/evolution_instances/{instance}\<close>, else parsed from
  the name of the instance, also when the read rejects.
\<close>

definition lookup_slug :: "db \<Rightarrow> request_env \<Rightarrow> string js \<Rightarrow> effect list \<times> string" where
  "lookup_slug d env instance =
     (if env_slug_read_fails env then
        ([SlugLookup (render instance), LogError], parsed_slug instance)
      else
        ([SlugLookup (render instance)],
         (case evolution_instances d (render instance) of
            Some instanceLookup \<Rightarrow> render (js_or (ic_slug instanceLookup) (Val ''unknown''))
          | None \<Rightarrow> parsed_slug instance)))"

text \<open>
  The download of a voice note: the read of the credential, then the gateway call. Every
  failure is caught inside; the result is the base64 text or \<open>null\<close>.
\<close>

definition download_audio ::
  "db \<Rightarrow> request_env \<Rightarrow> webhook_body \<Rightarrow> effect list \<times> string js" where
  "download_audio d env body =
     (let instance = wb_instance body in
      if env_instance_read_fails env then ([AudioConfigRead (render instance), LogError], Null)
      else
        (let apiKey = (case evolution_instances d (render instance) of
                         Some instanceConfig \<Rightarrow> ic_apiKey instanceConfig
                       | None \<Rightarrow> Undefined)
         in if truthy apiKey \<and> truthy (wb_keyId body) then
              (if env_media_download_fails env then
                 ([AudioConfigRead (render instance),
                   MediaDownload (render instance) (render (wb_keyId body)), LogError], Null)
               else
                 ([AudioConfigRead (render instance),
                   MediaDownload (render instance) (render (wb_keyId body))],
                  js_or (env_media_base64 env) Null))
            else ([AudioConfigRead (render instance)], Null)))"

text \<open>
  The part of the handler that runs once the response is out: the payload, the binding
  of the conversation to the instance, the enrichment and the append to the message
  log. An exception ends it in the \<open>catch\<close> of the handler, which logs and, the headers
  being sent, answers nothing.
\<close>

definition basePayload ::
  "webhook_body \<Rightarrow> string \<Rightarrow> string \<Rightarrow> string \<Rightarrow> string \<Rightarrow> string \<Rightarrow> string \<Rightarrow> int \<Rightarrow>
   audioData option \<Rightarrow> payload" where
  "basePayload body remoteJid phoneNumber chatId slug text messageType ts audio =
     \<lparr> p_text = text, p_messageType = messageType, p_ts = ts, p_chatId = chatId,
       p_tiendaSlug = slug, p_slug = slug, p_telefono = Val (CHR ''+'' # phoneNumber),
       p_instanceName = wb_instance body, p_profileReady = False, p_firstInSession = False,
       p_sessionStartTs = ts, p_tiendaId = Undefined, p_usuarioId = Undefined,
       p_expires = None, p_audio = audio,
       p_meta = \<lparr> m_chatId = chatId, m_slug = slug,
                  m_pushName = render (js_or (wb_pushName body) (Val ''Cliente'')),
                  m_remoteJid = remoteJid,
                  m_messageId = render (js_or (wb_keyId body) (Val [])),
                  m_instanceName = wb_instance body, m_firstInSession = False,
                  m_sessionStartTs = ts, m_profileReady = False,
                  m_messageType = messageType, m_audio = audio \<rparr> \<rparr>"

definition background ::
  "db \<Rightarrow> request_env \<Rightarrow> webhook_body \<Rightarrow> payload \<Rightarrow> cache \<Rightarrow> effect list \<times> db \<times> cache" where
  "background d env body payload cache =
     (let chatId = p_chatId payload; slug = p_slug payload; ts = p_ts payload;
          binding = SetChatInstance slug chatId (wb_instance body) ts in
      if env_binding_write_fails env then ([binding, LogError], d, cache)
      else
        (let d' = d\<lparr> chat_instances := (chat_instances d)((slug, chatId) \<mapsto> wb_instance body) \<rparr> in
         case enrichWhatsAppPayload d' (env_now_enrich env) (env_now_session env) payload cache of
           Inl err \<Rightarrow> ([binding, Enrich chatId, LogError], d', cache)
         | Inr (enrichedPayload, cache') \<Rightarrow>
             if env_push_fails env then
               ([binding, Enrich chatId, PushMensaje slug chatId enrichedPayload, LogError],
                d', cache')
             else
               ([binding, Enrich chatId, PushMensaje slug chatId enrichedPayload], d', cache')))"

text \<open>
  The handler from the timestamp on, for a message that is not dropped: \<open>pre\<close> are the
  calls made so far. The slug is looked up, the response is sent, and the rest runs
  after it.
\<close>

definition accept_message ::
  "db \<Rightarrow> request_env \<Rightarrow> webhook_body \<Rightarrow> cache \<Rightarrow> effect list \<Rightarrow> string \<Rightarrow> string \<Rightarrow>
   audioData option \<Rightarrow> effect list \<times> db \<times> cache" where
  "accept_message d env body cache pre body_text messageType audioData =
     (let remoteJid = render (wb_remoteJid body);
          phoneNumber = remove_first ''@s.whatsapp.net'' remoteJid;
          chatId = ''web_'' @ phoneNumber;
          ts = (case wb_messageTimestamp body of
                  Some t \<Rightarrow> t
                | None \<Rightarrow> env_now env div 1000) * 1000;
          (lookup, slug) = lookup_slug d env (wb_instance body);
          (post, d', cache') =
            background d env body
              (basePayload body remoteJid phoneNumber chatId slug body_text messageType ts
                 audioData)
              cache
      in (pre @ lookup @ [Respond 200 (Accepted chatId slug)] @ post, d', cache'))"

text \<open>The handler of \<open>POST /webhook/evolution\<close>.\<close>

definition webhook_evolution ::
  "db \<Rightarrow> request_env \<Rightarrow> webhook_body \<Rightarrow> cache \<Rightarrow> effect list \<times> db \<times> cache" where
  "webhook_evolution d env body cache =
     (if wb_event body \<noteq> Val ''messages.upsert'' then ([Respond 200 EventIgnored], d, cache)
      else if wb_fromMe body = Some True then ([Respond 200 OwnMessageIgnored], d, cache)
      else if \<not> truthy (wb_remoteJid body) then ([Respond 400 MissingRemoteJid], d, cache)
      else
        (case wb_audioMessage body of
           Some audio \<Rightarrow>
             (let (evs, audioBase64) = download_audio d env body;
                  seconds = (case am_seconds audio of Some n \<Rightarrow> n | None \<Rightarrow> 0);
                  audioData = \<lparr> ad_base64 = audioBase64,
                                ad_mimetype = render (js_or (am_mimetype audio) (Val ''audio/ogg'')),
                                ad_seconds = seconds \<rparr>
              in accept_message d env body cache evs
                   (''[Audio message - '' @ show_nat seconds @ ''s]'') ''audio'' (Some audioData))
         | None \<Rightarrow>
             (let body_text = render (js_or (wb_conversation body)
                                        (js_or (wb_extendedText body) (Val [])))
              in if blank body_text then ([Respond 200 EmptyMessageIgnored], d, cache)
                 else accept_message d env body cache [] body_text ''text'' None)))"

text \<open>
  The response to the caller, and the three steps that run after it: the binding of the
  conversation, the enrichment and the append to the message log.
\<close>

fun is_respond :: "effect \<Rightarrow> bool" where
  "is_respond (Respond status reply) = True"
| "is_respond _ = False"

fun is_slug_lookup :: "effect \<Rightarrow> bool" where
  "is_slug_lookup (SlugLookup instance) = True"
| "is_slug_lookup _ = False"

fun is_background :: "effect \<Rightarrow> bool" where
  "is_background (SetChatInstance slug chatId instance ts) = True"
| "is_background (Enrich chatId) = True"
| "is_background (PushMensaje slug chatId payload) = True"
| "is_background _ = False"

section \<open>Example inputs\<close>

definition example_db :: db where
  "example_db =
     \<lparr> tiendas_por_slug = [''colmado'' \<mapsto> ''t1''],
       usuarios_por_identidad = Map.empty,
       usuarios_por_telefono = Map.empty,
       sesiones_index = Map.empty,
       chat_instances = Map.empty,
       evolution_instances = [''inst1'' \<mapsto> \<lparr> ic_apiKey = Val ''key1'', ic_slug = Val ''colmado'' \<rparr>],
       tiendas_evolution = [''t1'' \<mapsto> (Val ''inst1'', Val ''key1'')],
       db_unavailable = False \<rparr>"

definition example_body :: webhook_body where
  "example_body =
     \<lparr> wb_event = Val ''messages.upsert'', wb_instance = Val ''inst1'', wb_fromMe = Some False,
       wb_remoteJid = Val ''18095550100@s.whatsapp.net'', wb_keyId = Val ''MSG1'',
       wb_audioMessage = None, wb_conversation = Val ''hola'', wb_extendedText = Undefined,
       wb_messageTimestamp = Some 1700000000, wb_pushName = Val ''Ana'' \<rparr>"

definition example_payload :: payload where
  "example_payload =
     basePayload example_body ''18095550100@s.whatsapp.net'' ''18095550100'' ''web_18095550100''
       ''colmado'' ''hola'' ''text'' 1700000000000 None"

definition example_path :: path where
  "example_path = (''colmado'', ''web_18095550100'', ''r1'')"

definition other_path :: path where
  "other_path = (''colmado'', ''tg_18095550100'', ''r1'')"

definition example_response :: response where
  "example_response = \<lparr> r_text = Some (JStr ''hola''), r_ts = Some 2000, r_enviado = None \<rparr>"

definition stale_response :: response where
  "stale_response = \<lparr> r_text = Some (JStr ''hola''), r_ts = Some 500, r_enviado = None \<rparr>"

definition malformed_response :: response where
  "malformed_response = \<lparr> r_text = Some (JNum 7), r_ts = Some 2000, r_enviado = None \<rparr>"

definition always_up :: "nat \<Rightarrow> bool" where
  "always_up n = True"

definition always_down :: "nat \<Rightarrow> bool" where
  "always_down n = False"

definition up_from_third :: "nat \<Rightarrow> bool" where
  "up_from_third n = (2 \<le> n)"

definition example_cfg :: "(nat \<Rightarrow> bool) \<Rightarrow> config" where
  "example_cfg g = \<lparr> serviceStartupTime = 1000, cfg_db = example_db, gw = g \<rparr>"

definition example_state :: "respuestas \<Rightarrow> loop_state" where
  "example_state store = \<lparr> respuestas = store, processedResponses = {}, gw_calls = 0 \<rparr>"

definition two_processes :: system where
  "two_processes =
     \<lparr> sys_respuestas = [(example_path, example_response)],
       sys_gw_calls = 0,
       sys_processes = [\<lparr> pr_startup = 1000, pr_processed = {}, pr_snapshot = [] \<rparr>,
                        \<lparr> pr_startup = 1500, pr_processed = {}, pr_snapshot = [] \<rparr>] \<rparr>"

definition example_db_user :: db where
  "example_db_user =
     example_db\<lparr> usuarios_por_identidad := [''web_18095550100'' \<mapsto> ''u1''],
                  sesiones_index := [(''t1'', ''u1'') \<mapsto> Some 5000] \<rparr>"

definition sent_response :: response where
  "sent_response = \<lparr> r_text = Some (JStr ''hola''), r_ts = Some 2000, r_enviado = Some True \<rparr>"

definition example_env :: request_env where
  "example_env =
     \<lparr> env_now = 1700000000500, env_now_enrich = 1700000000600,
       env_now_session = 1700000000700, env_media_base64 = Undefined,
       env_instance_read_fails = False, env_media_download_fails = False,
       env_slug_read_fails = False, env_binding_write_fails = False,
       env_push_fails = False \<rparr>"

section \<open>Properties of the identity cache\<close>

lemma cache_fresh_upd_same:
  "cache_fresh (cache(c \<mapsto> e)) c now = (if ce_expires e > now then Some e else None)"
  by (simp add: cache_fresh_def)

lemma cache_fresh_remove: "cache_fresh (cache(c := None)) c now = None"
  by (simp add: cache_fresh_def)

lemma enrich_hit:
  "cache_fresh cache (p_chatId p) now = Some e \<Longrightarrow>
   enrichWhatsAppPayload d now now2 p cache = Inr (assign_cached p e, cache)"
  by (simp add: enrichWhatsAppPayload_def)

lemma enrich_miss_entry:
  assumes "cache_fresh cache (p_chatId p) now = None" "\<not> db_unavailable d"
  shows "\<exists>q. enrichWhatsAppPayload d now now2 p cache
           = Inr (q, cache(p_chatId p \<mapsto>
               \<lparr> ce_tiendaId = snap_val (tiendas_por_slug d (p_tiendaSlug p)),
                 ce_usuarioId = lookup_usuarioId d (p_chatId p) (p_telefono p),
                 ce_slug = p_tiendaSlug p,
                 ce_sessionStartTs = snd (lookup_session d (snap_val (tiendas_por_slug d (p_tiendaSlug p)))
                                            (lookup_usuarioId d (p_chatId p) (p_telefono p)) now2),
                 ce_expires = now + 60000 \<rparr>))
     \<and> p_sessionStartTs q = snd (lookup_session d (snap_val (tiendas_por_slug d (p_tiendaSlug p)))
                                            (lookup_usuarioId d (p_chatId p) (p_telefono p)) now2)
     \<and> p_tiendaId q = snap_val (tiendas_por_slug d (p_tiendaSlug p))
     \<and> p_profileReady q = truthy (lookup_usuarioId d (p_chatId p) (p_telefono p))
     \<and> m_profileReady (p_meta q) = truthy (lookup_usuarioId d (p_chatId p) (p_telefono p))
     \<and> p_firstInSession q = fst (lookup_session d (snap_val (tiendas_por_slug d (p_tiendaSlug p)))
                                            (lookup_usuarioId d (p_chatId p) (p_telefono p)) now2)
     \<and> m_firstInSession (p_meta q) = p_firstInSession q
     \<and> p_usuarioId q = p_usuarioId p"
  using assms by (simp add: enrichWhatsAppPayload_def Let_def case_prod_beta)

lemma enrich_miss:
  assumes "cache_fresh cache (p_chatId p) now = None" "\<not> db_unavailable d"
  shows "\<exists>q e. enrichWhatsAppPayload d now now2 p cache = Inr (q, cache(p_chatId p \<mapsto> e))
     \<and> ce_expires e = now + 60000
     \<and> ce_usuarioId e = lookup_usuarioId d (p_chatId p) (p_telefono p)
     \<and> ce_tiendaId e = snap_val (tiendas_por_slug d (p_tiendaSlug p))
     \<and> ce_slug e = p_tiendaSlug p
     \<and> ce_sessionStartTs e = snd (lookup_session d (ce_tiendaId e) (ce_usuarioId e) now2)
     \<and> p_sessionStartTs q = ce_sessionStartTs e
     \<and> p_tiendaId q = ce_tiendaId e
     \<and> p_profileReady q = truthy (ce_usuarioId e)
     \<and> m_profileReady (p_meta q) = truthy (ce_usuarioId e)
     \<and> p_firstInSession q = fst (lookup_session d (ce_tiendaId e) (ce_usuarioId e) now2)
     \<and> m_firstInSession (p_meta q) = p_firstInSession q
     \<and> p_usuarioId q = p_usuarioId p"
proof -
  let ?e = "\<lparr> ce_tiendaId = snap_val (tiendas_por_slug d (p_tiendaSlug p)),
             ce_usuarioId = lookup_usuarioId d (p_chatId p) (p_telefono p),
             ce_slug = p_tiendaSlug p,
             ce_sessionStartTs = snd (lookup_session d (snap_val (tiendas_por_slug d (p_tiendaSlug p)))
                                        (lookup_usuarioId d (p_chatId p) (p_telefono p)) now2),
             ce_expires = now + 60000 \<rparr>"
  from enrich_miss_entry[OF assms, of now2] obtain q where
    q: "enrichWhatsAppPayload d now now2 p cache = Inr (q, cache(p_chatId p \<mapsto> ?e))"
       "p_sessionStartTs q = ce_sessionStartTs ?e"
       "p_tiendaId q = ce_tiendaId ?e"
       "p_profileReady q = truthy (ce_usuarioId ?e)"
       "m_profileReady (p_meta q) = truthy (ce_usuarioId ?e)"
       "p_firstInSession q = fst (lookup_session d (ce_tiendaId ?e) (ce_usuarioId ?e) now2)"
       "m_firstInSession (p_meta q) = p_firstInSession q"
       "p_usuarioId q = p_usuarioId p"
    by auto
  show ?thesis
    apply (rule exI[where x = q])
    apply (rule exI[where x = ?e])
    using q by simp
qed

lemma enrich_miss_eq:
  "cache_fresh cache (p_chatId p) now = None \<Longrightarrow>
   enrichWhatsAppPayload d now now2 p cache
     = enrichWhatsAppPayload d now now2 p (cache(p_chatId p := None))"
  by (simp add: enrichWhatsAppPayload_def Let_def cache_fresh_remove split: prod.splits)

lemma enrich_miss_available:
  assumes "enrichWhatsAppPayload d now now2 p cache = Inr r"
    and "cache_fresh cache (p_chatId p) now = None"
  shows "\<not> db_unavailable d"
  using assms by (auto simp: enrichWhatsAppPayload_def split: if_splits)

lemma enrich_preserves_other:
  assumes "enrichWhatsAppPayload d now now2 p cache = Inr (q, cache')" "p_chatId p \<noteq> c"
  shows "cache' c = cache c"
  using assms
  by (auto simp: enrichWhatsAppPayload_def Let_def case_prod_beta split: option.splits if_splits)

lemma enrich_calls_hits:
  assumes "cache c = Some e"
    and "\<forall>(d', now, now2, p) \<in> set calls. p_chatId p = c \<longrightarrow> now < ce_expires e"
  shows "length (fst (enrich_calls calls cache)) = length calls \<and>
         (\<forall>i < length calls. p_chatId (snd (snd (snd (calls ! i)))) = c \<longrightarrow>
            fst (enrich_calls calls cache) ! i
              = Inr (assign_cached (snd (snd (snd (calls ! i)))) e))"
  using assms
proof (induction calls arbitrary: cache)
  case Nil
  then show ?case by simp
next
  case (Cons call calls)
  obtain d' now now2 p where call: "call = (d', now, now2, p)"
    by (cases call) auto
  from Cons.prems
  have rest: "\<forall>(d', now, now2, p) \<in> set calls. p_chatId p = c \<longrightarrow> now < ce_expires e"
    by simp
  show ?case
  proof (cases "p_chatId p = c")
    case True
    with Cons.prems call have "now < ce_expires e" by auto
    with True Cons.prems(1) have fresh: "cache_fresh cache (p_chatId p) now = Some e"
      by (simp add: cache_fresh_def)
    have step: "enrichWhatsAppPayload d' now now2 p cache = Inr (assign_cached p e, cache)"
      by (rule enrich_hit[OF fresh])
    note IH = Cons.IH[of cache, OF Cons.prems(1) rest]
    show ?thesis
      using IH step call by (auto simp: case_prod_beta nth_Cons split: nat.splits)
  next
    case False
    show ?thesis
    proof (cases "enrichWhatsAppPayload d' now now2 p cache")
      case (Inl err)
      note IH = Cons.IH[of cache, OF Cons.prems(1) rest]
      show ?thesis
        using IH Inl call False by (auto simp: case_prod_beta nth_Cons split: nat.splits)
    next
      case (Inr r)
      obtain q cache1 where r: "r = (q, cache1)" by (cases r) auto
      from enrich_preserves_other[OF Inr[unfolded r] False] Cons.prems(1)
      have "cache1 c = Some e" by simp
      note IH = Cons.IH[of cache1, OF this rest]
      show ?thesis
        using IH Inr r call False by (auto simp: case_prod_beta nth_Cons split: nat.splits)
    qed
  qed
qed



lemma lookup_usuarioId_by_identity:
  "usuarios_por_identidad d c = Some u \<Longrightarrow> u \<noteq> [] \<Longrightarrow> lookup_usuarioId d c tel = Val u"
  by (simp add: lookup_usuarioId_def snap_val_def)

lemma lookup_usuarioId_by_phone:
  assumes "\<forall>v. usuarios_por_identidad d c = Some v \<longrightarrow> v = []"
    and "tel = Val ph" "ph \<noteq> []"
    and "usuarios_por_telefono d (CHR ''+'' # filter (\<lambda>ch. ch \<in> set ''0123456789'') ph) = Some u"
  shows "lookup_usuarioId d c tel = Val u"
proof -
  have digits: "filter is_digit ph = filter (\<lambda>ch. ch \<in> set ''0123456789'') ph"
    by (rule filter_cong) (simp_all add: is_digit_def)
  have "\<not> truthy (snap_val (usuarios_por_identidad d c))"
    using assms(1) by (cases "usuarios_por_identidad d c") (simp_all add: snap_val_def)
  then show ?thesis
    using assms(2-4) digits by (simp add: lookup_usuarioId_def normalizePhone_def Let_def)
qed

lemma lookup_usuarioId_nowhere:
  assumes "usuarios_por_identidad d c = None"
    and "\<forall>ph. tel = Val ph \<and> ph \<noteq> []
           \<longrightarrow> usuarios_por_telefono d (CHR ''+'' # filter (\<lambda>ch. ch \<in> set ''0123456789'') ph) = None"
  shows "lookup_usuarioId d c tel = Null"
proof -
  have digits: "\<And>ph. filter is_digit ph = filter (\<lambda>ch. ch \<in> set ''0123456789'') ph"
    by (rule filter_cong) (simp_all add: is_digit_def)
  show ?thesis
  proof (cases tel)
    case (Val ph)
    with assms digits[of ph] show ?thesis
      by (cases "ph = []") (simp_all add: lookup_usuarioId_def normalizePhone_def Let_def snap_val_def)
  qed (use assms in \<open>simp_all add: lookup_usuarioId_def snap_val_def\<close>)
qed

lemma lookup_session_found:
  assumes "u \<noteq> []" "sesiones_index d (render tid, u) = Some v"
  shows "lookup_session d tid (Val u) t
           = (False, case v of Some ts \<Rightarrow> if ts \<noteq> 0 then ts else t | None \<Rightarrow> t)"
  using assms by (simp add: lookup_session_def)

lemma lookup_session_missing:
  assumes "sesiones_index d (render tid, u) = None"
  shows "lookup_session d tid (Val u) t = (True, t)"
  using assms by (simp add: lookup_session_def)

lemma lookup_session_no_user:
  assumes "\<not> (\<exists>u. uid = Val u \<and> u \<noteq> [])"
  shows "lookup_session d tid uid t = (True, t)"
  using assms by (cases uid) (simp_all add: lookup_session_def)

lemma truthy_iff: "truthy x \<longleftrightarrow> (\<exists>u. x = Val u \<and> u \<noteq> [])"
  by (cases x) simp_all

lemma render_snap_val:
  "render (snap_val v) = (case v of None \<Rightarrow> ''null'' | Some s \<Rightarrow> s)"
  by (cases v) (simp_all add: snap_val_def)

text \<open>A call that misses and reaches the store, stated on what the store holds.\<close>

lemma enrich_miss_store:
  assumes miss: "cache_fresh cache (p_chatId p) now = None" and avail: "\<not> db_unavailable d"
  shows "\<exists>q e.
      enrichWhatsAppPayload d now t p cache = Inr (q, cache(p_chatId p \<mapsto> e))
    \<and> ce_expires e = now + 60000 \<and> ce_slug e = p_tiendaSlug p
    \<and> ce_tiendaId e = (case tiendas_por_slug d (p_tiendaSlug p) of
                          None \<Rightarrow> Null | Some tid \<Rightarrow> Val tid)
    \<and> p_tiendaId q = ce_tiendaId e
    \<and> p_sessionStartTs q = ce_sessionStartTs e
    \<and> p_profileReady q = (\<exists>u. ce_usuarioId e = Val u \<and> u \<noteq> [])
    \<and> m_profileReady (p_meta q) = p_profileReady q
    \<and> m_firstInSession (p_meta q) = p_firstInSession q
    \<and> (\<forall>u. usuarios_por_identidad d (p_chatId p) = Some u \<and> u \<noteq> [] \<longrightarrow> ce_usuarioId e = Val u)
    \<and> (\<forall>ph u. (\<forall>v. usuarios_por_identidad d (p_chatId p) = Some v \<longrightarrow> v = [])
           \<and> p_telefono p = Val ph \<and> ph \<noteq> []
           \<and> usuarios_por_telefono d
                (CHR ''+'' # filter (\<lambda>ch. ch \<in> set ''0123456789'') ph) = Some u
         \<longrightarrow> ce_usuarioId e = Val u)
    \<and> (usuarios_por_identidad d (p_chatId p) = None
         \<and> (\<forall>ph. p_telefono p = Val ph \<and> ph \<noteq> []
               \<longrightarrow> usuarios_por_telefono d
                     (CHR ''+'' # filter (\<lambda>ch. ch \<in> set ''0123456789'') ph) = None)
         \<longrightarrow> ce_usuarioId e = Null)
    \<and> (\<forall>u v. ce_usuarioId e = Val u \<and> u \<noteq> []
           \<and> sesiones_index d
                (case tiendas_por_slug d (p_tiendaSlug p) of None \<Rightarrow> ''null'' | Some tid \<Rightarrow> tid, u)
              = Some v
         \<longrightarrow> p_firstInSession q = False
           \<and> ce_sessionStartTs e = (case v of Some ts \<Rightarrow> if ts \<noteq> 0 then ts else t | None \<Rightarrow> t))
    \<and> (\<forall>u. ce_usuarioId e = Val u \<and> u \<noteq> []
           \<and> sesiones_index d
                (case tiendas_por_slug d (p_tiendaSlug p) of None \<Rightarrow> ''null'' | Some tid \<Rightarrow> tid, u)
              = None
         \<longrightarrow> p_firstInSession q = True \<and> ce_sessionStartTs e = t)
    \<and> (\<not> (\<exists>u. ce_usuarioId e = Val u \<and> u \<noteq> [])
         \<longrightarrow> p_firstInSession q = True \<and> ce_sessionStartTs e = t)"
proof -
  from enrich_miss[OF miss avail, of t] obtain q e where
    r: "enrichWhatsAppPayload d now t p cache = Inr (q, cache(p_chatId p \<mapsto> e))"
      "ce_expires e = now + 60000"
      "ce_usuarioId e = lookup_usuarioId d (p_chatId p) (p_telefono p)"
      "ce_tiendaId e = snap_val (tiendas_por_slug d (p_tiendaSlug p))"
      "ce_slug e = p_tiendaSlug p"
      "ce_sessionStartTs e = snd (lookup_session d (ce_tiendaId e) (ce_usuarioId e) t)"
      "p_sessionStartTs q = ce_sessionStartTs e"
      "p_tiendaId q = ce_tiendaId e"
      "p_profileReady q = truthy (ce_usuarioId e)"
      "m_profileReady (p_meta q) = truthy (ce_usuarioId e)"
      "p_firstInSession q = fst (lookup_session d (ce_tiendaId e) (ce_usuarioId e) t)"
      "m_firstInSession (p_meta q) = p_firstInSession q"
    by blast
  let ?key = "case tiendas_por_slug d (p_tiendaSlug p) of None \<Rightarrow> ''null'' | Some tid \<Rightarrow> tid"
  have key: "render (ce_tiendaId e) = ?key"
    by (simp add: r(4) render_snap_val)
  have tid: "ce_tiendaId e = (case tiendas_por_slug d (p_tiendaSlug p) of
                          None \<Rightarrow> Null | Some tid \<Rightarrow> Val tid)"
    by (simp add: r(4) snap_val_def)
  have ready: "p_profileReady q = (\<exists>u. ce_usuarioId e = Val u \<and> u \<noteq> [])"
    "m_profileReady (p_meta q) = p_profileReady q"
    by (simp_all add: r(9,10) truthy_iff)
  have by_id: "\<forall>u. usuarios_por_identidad d (p_chatId p) = Some u \<and> u \<noteq> [] \<longrightarrow> ce_usuarioId e = Val u"
    by (simp add: r(3) lookup_usuarioId_by_identity)
  have by_phone: "\<forall>ph u. (\<forall>v. usuarios_por_identidad d (p_chatId p) = Some v \<longrightarrow> v = [])
           \<and> p_telefono p = Val ph \<and> ph \<noteq> []
           \<and> usuarios_por_telefono d
                (CHR ''+'' # filter (\<lambda>ch. ch \<in> set ''0123456789'') ph) = Some u
         \<longrightarrow> ce_usuarioId e = Val u"
    using lookup_usuarioId_by_phone[of d "p_chatId p" "p_telefono p"] by (simp add: r(3))
  have nowhere: "usuarios_por_identidad d (p_chatId p) = None
         \<and> (\<forall>ph. p_telefono p = Val ph \<and> ph \<noteq> []
               \<longrightarrow> usuarios_por_telefono d
                     (CHR ''+'' # filter (\<lambda>ch. ch \<in> set ''0123456789'') ph) = None)
         \<longrightarrow> ce_usuarioId e = Null"
    using lookup_usuarioId_nowhere[of d "p_chatId p" "p_telefono p"] by (simp add: r(3))
  have found: "\<forall>u v. ce_usuarioId e = Val u \<and> u \<noteq> [] \<and> sesiones_index d (?key, u) = Some v
         \<longrightarrow> p_firstInSession q = False
           \<and> ce_sessionStartTs e = (case v of Some ts \<Rightarrow> if ts \<noteq> 0 then ts else t | None \<Rightarrow> t)"
  proof (intro allI impI)
    fix u v
    assume a: "ce_usuarioId e = Val u \<and> u \<noteq> [] \<and> sesiones_index d (?key, u) = Some v"
    then have "lookup_session d (ce_tiendaId e) (Val u) t
        = (False, case v of Some ts \<Rightarrow> if ts \<noteq> 0 then ts else t | None \<Rightarrow> t)"
      using lookup_session_found[of u d "ce_tiendaId e" v t] key by simp
    with a show "p_firstInSession q = False
           \<and> ce_sessionStartTs e = (case v of Some ts \<Rightarrow> if ts \<noteq> 0 then ts else t | None \<Rightarrow> t)"
      by (simp add: r(6,11))
  qed
  have missing: "\<forall>u. ce_usuarioId e = Val u \<and> u \<noteq> [] \<and> sesiones_index d (?key, u) = None
         \<longrightarrow> p_firstInSession q = True \<and> ce_sessionStartTs e = t"
  proof (intro allI impI)
    fix u
    assume a: "ce_usuarioId e = Val u \<and> u \<noteq> [] \<and> sesiones_index d (?key, u) = None"
    then have "lookup_session d (ce_tiendaId e) (Val u) t = (True, t)"
      using lookup_session_missing[of d "ce_tiendaId e" u t] key by simp
    with a show "p_firstInSession q = True \<and> ce_sessionStartTs e = t"
      by (simp add: r(6,11))
  qed
  have nouser: "\<not> (\<exists>u. ce_usuarioId e = Val u \<and> u \<noteq> [])
         \<longrightarrow> p_firstInSession q = True \<and> ce_sessionStartTs e = t"
    using lookup_session_no_user[of "ce_usuarioId e" d "ce_tiendaId e" t] by (simp add: r(6,11))
  show ?thesis
    apply (rule exI[where x = q])
    apply (rule exI[where x = e])
    using r(1,2,5,7,8,12) tid ready by_id by_phone nowhere found missing nouser
    by (intro conjI) assumption+
qed

text \<open>
  Claim C7. Let a call for conversation \<open>c\<close> at time \<open>now\<close> miss the cache and resolve. It
  stores an entry for \<open>c\<close> with expiry \<open>now + 60000\<close> over whatever was stored for \<open>c\<close>
  before. A later call for \<open>c\<close> at a time before \<open>now + 60000\<close> is answered from that
  entry, with \<open>firstInSession = false\<close> and \<open>profileReady = true\<close> whatever the store then
  holds (so also without a session index), and leaves the cache as it is. A call at
  \<open>now + 60000\<close> or later behaves as a call on a cache without the entry and reads the
  store again: the tenant id is what \<open>/tiendas_por_slug\<close> holds for the slug; the user id
  is what \<open>/usuarios_por_identidad\<close> holds for \<open>c\<close>, else what \<open>/usuarios_por_telefono\<close>
  holds for the digits of the phone number, else \<open>null\<close>; with a user, the session index
  of tenant and user decides \<open>firstInSession\<close> and supplies the session start, and without
  one the session is new and starts at the reading of the clock. The new entry is stored
  with expiry \<open>now' + 60000\<close>.
\<close>

theorem cache_ttl_60s:
  assumes ca: "p_chatId p = c" and cb: "p_chatId p' = c"
    and first: "enrichWhatsAppPayload d now t p cache = Inr (q, cache')"
    and miss: "cache_fresh cache c now = None"
  shows "(\<exists>e. cache' = cache(c \<mapsto> e) \<and> ce_expires e = now + 60000)
       \<and> (now' < now + 60000 \<longrightarrow>
            (\<exists>q'. enrichWhatsAppPayload d' now' t' p' cache' = Inr (q', cache')
               \<and> p_firstInSession q' = False \<and> m_firstInSession (p_meta q') = False
               \<and> p_profileReady q' = True \<and> m_profileReady (p_meta q') = True
               \<and> Some (p_tiendaId q', p_usuarioId q', p_sessionStartTs q')
                   = map_option (\<lambda>e. (ce_tiendaId e, ce_usuarioId e, ce_sessionStartTs e))
                       (cache' c)))
       \<and> (now + 60000 \<le> now' \<longrightarrow>
            enrichWhatsAppPayload d' now' t' p' cache'
              = enrichWhatsAppPayload d' now' t' p' (cache'(c := None))
            \<and> (\<not> db_unavailable d' \<longrightarrow>
                 (\<exists>q' e'.
                    enrichWhatsAppPayload d' now' t' p' cache' = Inr (q', cache'(c \<mapsto> e'))
                  \<and> ce_expires e' = now' + 60000 \<and> ce_slug e' = p_tiendaSlug p'
                  \<and> ce_tiendaId e' = (case tiendas_por_slug d' (p_tiendaSlug p') of
                                         None \<Rightarrow> Null | Some tid \<Rightarrow> Val tid)
                  \<and> p_tiendaId q' = ce_tiendaId e'
                  \<and> p_sessionStartTs q' = ce_sessionStartTs e'
                  \<and> p_profileReady q' = (\<exists>u. ce_usuarioId e' = Val u \<and> u \<noteq> [])
                  \<and> m_profileReady (p_meta q') = p_profileReady q'
                  \<and> m_firstInSession (p_meta q') = p_firstInSession q'
                  \<and> (\<forall>u. usuarios_por_identidad d' c = Some u \<and> u \<noteq> []
                        \<longrightarrow> ce_usuarioId e' = Val u)
                  \<and> (\<forall>ph u. (\<forall>v. usuarios_por_identidad d' c = Some v \<longrightarrow> v = [])
                         \<and> p_telefono p' = Val ph \<and> ph \<noteq> []
                         \<and> usuarios_por_telefono d'
                              (CHR ''+'' # filter (\<lambda>ch. ch \<in> set ''0123456789'') ph) = Some u
                        \<longrightarrow> ce_usuarioId e' = Val u)
                  \<and> (usuarios_por_identidad d' c = None
                       \<and> (\<forall>ph. p_telefono p' = Val ph \<and> ph \<noteq> []
                             \<longrightarrow> usuarios_por_telefono d'
                                   (CHR ''+'' # filter (\<lambda>ch. ch \<in> set ''0123456789'') ph) = None)
                       \<longrightarrow> ce_usuarioId e' = Null)
                  \<and> (\<forall>u v. ce_usuarioId e' = Val u \<and> u \<noteq> []
                         \<and> sesiones_index d'
                              (case tiendas_por_slug d' (p_tiendaSlug p') of
                                 None \<Rightarrow> ''null'' | Some tid \<Rightarrow> tid, u) = Some v
                       \<longrightarrow> p_firstInSession q' = False
                         \<and> ce_sessionStartTs e'
                             = (case v of Some ts \<Rightarrow> if ts \<noteq> 0 then ts else t' | None \<Rightarrow> t'))
                  \<and> (\<forall>u. ce_usuarioId e' = Val u \<and> u \<noteq> []
                         \<and> sesiones_index d'
                              (case tiendas_por_slug d' (p_tiendaSlug p') of
                                 None \<Rightarrow> ''null'' | Some tid \<Rightarrow> tid, u) = None
                       \<longrightarrow> p_firstInSession q' = True \<and> ce_sessionStartTs e' = t')
                  \<and> (\<not> (\<exists>u. ce_usuarioId e' = Val u \<and> u \<noteq> [])
                       \<longrightarrow> p_firstInSession q' = True \<and> ce_sessionStartTs e' = t'))))"
proof -
  from enrich_miss_available[OF first] miss ca have avail: "\<not> db_unavailable d"
    by simp
  from enrich_miss[of cache p now d t] miss ca avail first
  obtain e where e: "cache' = cache(c \<mapsto> e)" "ce_expires e = now + 60000"
    by auto
  have A: "\<exists>e. cache' = cache(c \<mapsto> e) \<and> ce_expires e = now + 60000"
    using e by blast
  have B: "\<exists>q'. enrichWhatsAppPayload d' now' t' p' cache' = Inr (q', cache')
               \<and> p_firstInSession q' = False \<and> m_firstInSession (p_meta q') = False
               \<and> p_profileReady q' = True \<and> m_profileReady (p_meta q') = True
               \<and> Some (p_tiendaId q', p_usuarioId q', p_sessionStartTs q')
                   = map_option (\<lambda>e. (ce_tiendaId e, ce_usuarioId e, ce_sessionStartTs e))
                       (cache' c)"
    if "now' < now + 60000"
  proof -
    have "cache_fresh cache' (p_chatId p') now' = Some e"
      using that e cb by (simp add: cache_fresh_upd_same)
    from enrich_hit[OF this, of d' t'] show ?thesis
      using e by (simp add: assign_cached_def)
  qed
  have fresh: "cache_fresh cache' (p_chatId p') now' = None" if "now + 60000 \<le> now'"
    using that e cb by (simp add: cache_fresh_upd_same)
  have C: "enrichWhatsAppPayload d' now' t' p' cache'
              = enrichWhatsAppPayload d' now' t' p' (cache'(c := None))"
    if "now + 60000 \<le> now'"
    using enrich_miss_eq[OF fresh[OF that], of d' t'] cb by simp
  note D = enrich_miss_store[OF fresh, of d' t', unfolded cb]
  show ?thesis
  proof (intro conjI impI)
    show "\<exists>e. cache' = cache(c \<mapsto> e) \<and> ce_expires e = now + 60000" by (rule A)
  next
    assume "now' < now + 60000"
    then show "\<exists>q'. enrichWhatsAppPayload d' now' t' p' cache' = Inr (q', cache')
               \<and> p_firstInSession q' = False \<and> m_firstInSession (p_meta q') = False
               \<and> p_profileReady q' = True \<and> m_profileReady (p_meta q') = True
               \<and> Some (p_tiendaId q', p_usuarioId q', p_sessionStartTs q')
                   = map_option (\<lambda>e. (ce_tiendaId e, ce_usuarioId e, ce_sessionStartTs e))
                       (cache' c)" by (rule B)
  next
    assume "now + 60000 \<le> now'"
    then show "enrichWhatsAppPayload d' now' t' p' cache'
              = enrichWhatsAppPayload d' now' t' p' (cache'(c := None))" by (rule C)
  next
    assume "now + 60000 \<le> now'" "\<not> db_unavailable d'"
    then show "\<exists>q' e'.
                    enrichWhatsAppPayload d' now' t' p' cache' = Inr (q', cache'(c \<mapsto> e'))
                  \<and> ce_expires e' = now' + 60000 \<and> ce_slug e' = p_tiendaSlug p'
                  \<and> ce_tiendaId e' = (case tiendas_por_slug d' (p_tiendaSlug p') of
                                         None \<Rightarrow> Null | Some tid \<Rightarrow> Val tid)
                  \<and> p_tiendaId q' = ce_tiendaId e'
                  \<and> p_sessionStartTs q' = ce_sessionStartTs e'
                  \<and> p_profileReady q' = (\<exists>u. ce_usuarioId e' = Val u \<and> u \<noteq> [])
                  \<and> m_profileReady (p_meta q') = p_profileReady q'
                  \<and> m_firstInSession (p_meta q') = p_firstInSession q'
                  \<and> (\<forall>u. usuarios_por_identidad d' c = Some u \<and> u \<noteq> []
                        \<longrightarrow> ce_usuarioId e' = Val u)
                  \<and> (\<forall>ph u. (\<forall>v. usuarios_por_identidad d' c = Some v \<longrightarrow> v = [])
                         \<and> p_telefono p' = Val ph \<and> ph \<noteq> []
                         \<and> usuarios_por_telefono d'
                              (CHR ''+'' # filter (\<lambda>ch. ch \<in> set ''0123456789'') ph) = Some u
                        \<longrightarrow> ce_usuarioId e' = Val u)
                  \<and> (usuarios_por_identidad d' c = None
                       \<and> (\<forall>ph. p_telefono p' = Val ph \<and> ph \<noteq> []
                             \<longrightarrow> usuarios_por_telefono d'
                                   (CHR ''+'' # filter (\<lambda>ch. ch \<in> set ''0123456789'') ph) = None)
                       \<longrightarrow> ce_usuarioId e' = Null)
                  \<and> (\<forall>u v. ce_usuarioId e' = Val u \<and> u \<noteq> []
                         \<and> sesiones_index d'
                              (case tiendas_por_slug d' (p_tiendaSlug p') of
                                 None \<Rightarrow> ''null'' | Some tid \<Rightarrow> tid, u) = Some v
                       \<longrightarrow> p_firstInSession q' = False
                         \<and> ce_sessionStartTs e'
                             = (case v of Some ts \<Rightarrow> if ts \<noteq> 0 then ts else t' | None \<Rightarrow> t'))
                  \<and> (\<forall>u. ce_usuarioId e' = Val u \<and> u \<noteq> []
                         \<and> sesiones_index d'
                              (case tiendas_por_slug d' (p_tiendaSlug p') of
                                 None \<Rightarrow> ''null'' | Some tid \<Rightarrow> tid, u) = None
                       \<longrightarrow> p_firstInSession q' = True \<and> ce_sessionStartTs e' = t')
                  \<and> (\<not> (\<exists>u. ce_usuarioId e' = Val u \<and> u \<noteq> [])
                       \<longrightarrow> p_firstInSession q' = True \<and> ce_sessionStartTs e' = t')"
      by (rule D)
  qed
qed

theorem cache_ttl_60s_witness:
  "\<exists>q cache'.
     enrichWhatsAppPayload example_db 1000 1001 example_payload Map.empty = Inr (q, cache')
     \<and> cache_fresh Map.empty ''web_18095550100'' 1000 = None
     \<and> (\<exists>e. cache' = [''web_18095550100'' \<mapsto> e] \<and> ce_expires e = 61000)
     \<and> sesiones_index example_db (''t1'', ''u1'') = None
     \<and> (\<exists>q'. enrichWhatsAppPayload example_db 60999 60999 example_payload cache' = Inr (q', cache')
           \<and> p_firstInSession q' = False \<and> p_profileReady q' = True)
     \<and> usuarios_por_identidad example_db_user ''web_18095550100'' = Some ''u1''
     \<and> sesiones_index example_db_user (''t1'', ''u1'') = Some (Some 5000)
     \<and> (\<exists>q' e'. enrichWhatsAppPayload example_db_user 61000 61001 example_payload cache'
                    = Inr (q', cache'(''web_18095550100'' \<mapsto> e'))
           \<and> ce_expires e' = 121000 \<and> ce_tiendaId e' = Val ''t1'' \<and> ce_usuarioId e' = Val ''u1''
           \<and> ce_sessionStartTs e' = 5000 \<and> p_sessionStartTs q' = 5000
           \<and> p_firstInSession q' = False \<and> p_profileReady q' = True)"
proof -
  have c: "p_chatId example_payload = ''web_18095550100''"
    by (simp add: example_payload_def basePayload_def)
  have slug: "p_tiendaSlug example_payload = ''colmado''"
    by (simp add: example_payload_def basePayload_def)
  have miss: "cache_fresh Map.empty ''web_18095550100'' 1000 = None"
    by (simp add: cache_fresh_def)
  have avail: "\<not> db_unavailable example_db" "\<not> db_unavailable example_db_user"
    by (simp_all add: example_db_def example_db_user_def)
  have nosession: "sesiones_index example_db (''t1'', ''u1'') = None"
    by (simp add: example_db_def)
  have user: "usuarios_por_identidad example_db_user ''web_18095550100'' = Some ''u1''"
    and session: "sesiones_index example_db_user (''t1'', ''u1'') = Some (Some 5000)"
    and tienda: "tiendas_por_slug example_db_user ''colmado'' = Some ''t1''"
    by (simp_all add: example_db_def example_db_user_def)
  from enrich_miss[of Map.empty example_payload 1000 example_db 1001] miss avail c
  obtain q e where first:
    "enrichWhatsAppPayload example_db 1000 1001 example_payload Map.empty
       = Inr (q, [''web_18095550100'' \<mapsto> e])"
    by auto
  let ?cache = "[''web_18095550100'' \<mapsto> e]"
  note hit = cache_ttl_60s[OF c c first miss, where now' = 60999 and d' = example_db
      and t' = 60999]
  note again = cache_ttl_60s[OF c c first miss, where now' = 61000 and d' = example_db_user
      and t' = 61001]
  have before: "(60999::int) < 1000 + 60000" and after: "(1000::int) + 60000 \<le> 61000"
    by simp_all
  note hit_part = hit[THEN conjunct2, THEN conjunct1, THEN mp, OF before]
  note again_part = again[THEN conjunct2, THEN conjunct2, THEN mp, OF after,
      THEN conjunct2, THEN mp, OF avail(2)]
  from hit_part obtain q1 where q1:
    "enrichWhatsAppPayload example_db 60999 60999 example_payload ?cache = Inr (q1, ?cache)"
    "p_firstInSession q1 = False" "p_profileReady q1 = True"
    by blast
  from hit[THEN conjunct1] have stored: "\<exists>e. ?cache = [''web_18095550100'' \<mapsto> e] \<and> ce_expires e = 61000"
    by simp
  from again_part obtain q2 e2 where q2:
    "enrichWhatsAppPayload example_db_user 61000 61001 example_payload ?cache
       = Inr (q2, ?cache(''web_18095550100'' \<mapsto> e2))"
    "ce_expires e2 = 61000 + 60000"
    "ce_tiendaId e2 = (case tiendas_por_slug example_db_user (p_tiendaSlug example_payload) of
                         None \<Rightarrow> Null | Some tid \<Rightarrow> Val tid)"
    "p_sessionStartTs q2 = ce_sessionStartTs e2"
    "p_profileReady q2 = (\<exists>u. ce_usuarioId e2 = Val u \<and> u \<noteq> [])"
    "\<forall>u. usuarios_por_identidad example_db_user ''web_18095550100'' = Some u \<and> u \<noteq> []
         \<longrightarrow> ce_usuarioId e2 = Val u"
    "\<forall>u v. ce_usuarioId e2 = Val u \<and> u \<noteq> []
         \<and> sesiones_index example_db_user
              (case tiendas_por_slug example_db_user (p_tiendaSlug example_payload) of
                 None \<Rightarrow> ''null'' | Some tid \<Rightarrow> tid, u) = Some v
       \<longrightarrow> p_firstInSession q2 = False
         \<and> ce_sessionStartTs e2 = (case v of Some ts \<Rightarrow> if ts \<noteq> 0 then ts else 61001 | None \<Rightarrow> 61001)"
    unfolding c by blast
  from q2(6) user have u2: "ce_usuarioId e2 = Val ''u1''" by simp
  from q2(3) slug tienda have t2: "ce_tiendaId e2 = Val ''t1''" by simp
  from q2(7) u2 slug tienda session
  have s2: "p_firstInSession q2 = False" "ce_sessionStartTs e2 = 5000"
    by simp_all
  from q2(5) u2 have r2: "p_profileReady q2 = True" by simp
  have second: "\<exists>q' e'. enrichWhatsAppPayload example_db_user 61000 61001 example_payload ?cache
                    = Inr (q', ?cache(''web_18095550100'' \<mapsto> e'))
           \<and> ce_expires e' = 121000 \<and> ce_tiendaId e' = Val ''t1'' \<and> ce_usuarioId e' = Val ''u1''
           \<and> ce_sessionStartTs e' = 5000 \<and> p_sessionStartTs q' = 5000
           \<and> p_firstInSession q' = False \<and> p_profileReady q' = True"
    apply (rule exI[where x = q2])
    apply (rule exI[where x = e2])
    using q2(1,2,4) u2 t2 s2 r2 by simp
  have hit': "\<exists>q'. enrichWhatsAppPayload example_db 60999 60999 example_payload ?cache
                 = Inr (q', ?cache)
           \<and> p_firstInSession q' = False \<and> p_profileReady q' = True"
    using q1 by blast
  show ?thesis
    apply (rule exI[where x = q])
    apply (rule exI[where x = ?cache])
    using first miss stored nosession hit' user session second by (intro conjI) assumption+
qed

text \<open>
  Claim C10. Let a call for conversation \<open>c\<close> miss the cache and find no user: the user id
  resolves to \<open>null\<close>. The call returns \<open>profileReady = false\<close> and stores the \<open>null\<close> user
  id. In any later sequence of calls, where those for \<open>c\<close> come before the expiry
  \<open>now + 60000\<close>, every call for \<open>c\<close> returns \<open>profileReady = true\<close> and the \<open>null\<close>
  user id of the stored entry.
\<close>

theorem null_user_cached_as_ready:
  assumes ca: "p_chatId p = c"
    and miss: "cache_fresh cache c now = None"
    and first: "enrichWhatsAppPayload d now t p cache = Inr (q, cache')"
    and nouser: "lookup_usuarioId d c (p_telefono p) = Null"
    and later: "\<forall>(d', now', t', p') \<in> set calls. p_chatId p' = c \<longrightarrow> now' < now + 60000"
  shows "p_profileReady q = False \<and> m_profileReady (p_meta q) = False
       \<and> (\<exists>e. cache' c = Some e \<and> ce_usuarioId e = Null)
       \<and> (\<forall>i < length calls. p_chatId (snd (snd (snd (calls ! i)))) = c \<longrightarrow>
            (\<exists>q'. fst (enrich_calls calls cache') ! i = Inr q'
               \<and> p_profileReady q' = True \<and> m_profileReady (p_meta q') = True
               \<and> p_usuarioId q' = Null))"
proof -
  from enrich_miss_available[OF first] miss ca have avail: "\<not> db_unavailable d"
    by simp
  from enrich_miss[of cache p now d t] miss ca avail first nouser
  obtain e where e: "cache' = cache(c \<mapsto> e)" "ce_expires e = now + 60000"
      "ce_usuarioId e = Null" "p_profileReady q = False" "m_profileReady (p_meta q) = False"
    by auto
  have stored: "cache' c = Some e" using e by simp
  have later': "\<forall>(d', now', t', p') \<in> set calls. p_chatId p' = c \<longrightarrow> now' < ce_expires e"
    using later e by simp
  from enrich_calls_hits[of cache' c e calls, OF stored later'] e stored
  show ?thesis by (auto simp: assign_cached_def)
qed

theorem null_user_cached_as_ready_witness:
  "\<exists>q cache'.
     enrichWhatsAppPayload example_db 1000 1001 example_payload Map.empty = Inr (q, cache')
     \<and> lookup_usuarioId example_db ''web_18095550100'' (p_telefono example_payload) = Null
     \<and> p_profileReady q = False
     \<and> (\<exists>e. cache' ''web_18095550100'' = Some e \<and> ce_usuarioId e = Null)
     \<and> (\<exists>q'. fst (enrich_calls [(example_db, 2000, 2001, example_payload),
                                 (example_db, 60999, 60999, example_payload)] cache') ! 1 = Inr q'
            \<and> p_profileReady q' = True \<and> p_usuarioId q' = Null)"
proof -
  have c: "p_chatId example_payload = ''web_18095550100''"
    by (simp add: example_payload_def basePayload_def)
  have miss: "cache_fresh Map.empty ''web_18095550100'' 1000 = None"
    by (simp add: cache_fresh_def)
  have avail: "\<not> db_unavailable example_db"
    by (simp add: example_db_def)
  have user: "lookup_usuarioId example_db ''web_18095550100'' (p_telefono example_payload) = Null"
    by (simp add: lookup_usuarioId_def example_db_def snap_val_def normalizePhone_def
        example_payload_def basePayload_def)
  from enrich_miss[of Map.empty example_payload 1000 example_db 1001] miss avail c
  obtain q e where first:
    "enrichWhatsAppPayload example_db 1000 1001 example_payload Map.empty
       = Inr (q, [''web_18095550100'' \<mapsto> e])"
    by auto
  have later: "\<forall>(d', now', t', p') \<in> set [(example_db, 2000 :: int, 2001 :: int, example_payload),
                   (example_db, 60999, 60999, example_payload)].
                 p_chatId p' = ''web_18095550100'' \<longrightarrow> now' < 1000 + 60000"
    by simp
  note T = null_user_cached_as_ready[OF c miss first user later]
  show ?thesis
    apply (rule exI[where x = q])
    apply (rule exI[where x = "[''web_18095550100'' \<mapsto> e]"])
    using first user T c by (auto simp del: enrich_calls.simps)
qed

section \<open>Properties of the delivery loop\<close>


lemma retry_three:
  "retryWithBackoff (post_sendText cfg p i n t) 3 1000 st =
     (if gw cfg (gw_calls st) then
        (Resolved, [SendText p i n t True], st\<lparr> gw_calls := Suc (gw_calls st) \<rparr>)
      else if gw cfg (Suc (gw_calls st)) then
        (Resolved, [SendText p i n t False, Sleep 1000, SendText p i n t True],
         st\<lparr> gw_calls := Suc (Suc (gw_calls st)) \<rparr>)
      else if gw cfg (Suc (Suc (gw_calls st))) then
        (Resolved, [SendText p i n t False, Sleep 1000, SendText p i n t False, Sleep 2000,
                    SendText p i n t True],
         st\<lparr> gw_calls := Suc (Suc (Suc (gw_calls st))) \<rparr>)
      else
        (Rejected, [SendText p i n t False, Sleep 1000, SendText p i n t False, Sleep 2000,
                    SendText p i n t False],
         st\<lparr> gw_calls := Suc (Suc (Suc (gw_calls st))) \<rparr>))"
proof -
  have range: "[1..<Suc 3] = [1, 2, 3]"
    by (simp add: upt_rec)
  show ?thesis
    unfolding retryWithBackoff_def range
    by (simp add: post_sendText_def Let_def)
qed


lemma send_claimed_cases:
  assumes "send_claimed cfg p text st = (res, evs, st')"
  shows "st' = st\<lparr> gw_calls := gw_calls st' \<rparr>"
    and "\<exists>i n. evs \<in> {[], [SendText p i n text True],
            [SendText p i n text False, Sleep 1000, SendText p i n text True],
            [SendText p i n text False, Sleep 1000, SendText p i n text False, Sleep 2000,
             SendText p i n text True],
            [SendText p i n text False, Sleep 1000, SendText p i n text False, Sleep 2000,
             SendText p i n text False]}"
  using assms
  by (auto simp: send_claimed_def Let_def retry_three split: prod.splits if_splits)

lemma transaction_other:
  "p \<noteq> q \<Longrightarrow> map_of (snd (transaction_enviado store q)) p = map_of store p"
  by (simp add: transaction_enviado_def update_conv' split: option.splits)

lemma transaction_committed:
  "fst (transaction_enviado store q)
     \<longleftrightarrow> \<not> (\<exists>r. map_of store q = Some r \<and> r_enviado r = Some True)"
  by (auto simp: transaction_enviado_def split: option.splits)

lemma transaction_aborted:
  "\<not> fst (transaction_enviado store q) \<Longrightarrow> snd (transaction_enviado store q) = store"
  by (auto simp: transaction_enviado_def split: option.splits if_splits)

lemma process_entry_unfold:
  "process_entry cfg (p, r) st =
     (if r_enviado r = Some True then
        ([Remove p], st\<lparr> respuestas := AList.delete p (respuestas st),
                          processedResponses := processedResponses st - {p} \<rparr>)
      else if p \<in> processedResponses st then ([], st)
      else if usable_text (r_text r) = None \<or> messageTimestamp r < serviceStartupTime cfg then
        ([Remove p], st\<lparr> processedResponses := insert p (processedResponses st),
                          respuestas := AList.delete p (respuestas st) \<rparr>)
      else if \<not> fst (transaction_enviado (respuestas st) p) then
        ([Claim p False], st\<lparr> processedResponses := insert p (processedResponses st) \<rparr>)
      else
        (let sent = send_claimed cfg p (the (usable_text (r_text r)))
                      (st\<lparr> processedResponses := insert p (processedResponses st),
                           respuestas := snd (transaction_enviado (respuestas st) p) \<rparr>)
         in ([Claim p True] @ fst (snd sent) @ [Remove p],
             (snd (snd sent))\<lparr> respuestas := AList.delete p (respuestas (snd (snd sent))),
                   processedResponses := processedResponses (snd (snd sent)) - {p} \<rparr>)))"
  by (auto simp: process_entry_def Let_def split: option.splits prod.splits)


lemma process_entry_cases [consumes 1, case_names cleanup skip discard lost claimed]:
  assumes run: "process_entry cfg (p, r) st = (evs, st')"
  obtains
    (cleanup) "r_enviado r = Some True" "evs = [Remove p]"
      "st' = st\<lparr> respuestas := AList.delete p (respuestas st),
                  processedResponses := processedResponses st - {p} \<rparr>"
  | (skip) "r_enviado r \<noteq> Some True" "p \<in> processedResponses st" "evs = []" "st' = st"
  | (discard) "r_enviado r \<noteq> Some True" "p \<notin> processedResponses st"
      "usable_text (r_text r) = None \<or> messageTimestamp r < serviceStartupTime cfg"
      "evs = [Remove p]"
      "st' = st\<lparr> processedResponses := insert p (processedResponses st),
                  respuestas := AList.delete p (respuestas st) \<rparr>"
  | (lost) r' where "r_enviado r \<noteq> Some True" "p \<notin> processedResponses st"
      "usable_text (r_text r) \<noteq> None" "\<not> messageTimestamp r < serviceStartupTime cfg"
      "map_of (respuestas st) p = Some r'" "r_enviado r' = Some True"
      "evs = [Claim p False]"
      "st' = st\<lparr> processedResponses := insert p (processedResponses st) \<rparr>"
  | (claimed) body res sends st3 where "r_enviado r \<noteq> Some True" "p \<notin> processedResponses st"
      "usable_text (r_text r) = Some body" "\<not> messageTimestamp r < serviceStartupTime cfg"
      "\<not> (\<exists>r'. map_of (respuestas st) p = Some r' \<and> r_enviado r' = Some True)"
      "send_claimed cfg p body
         (st\<lparr> processedResponses := insert p (processedResponses st),
              respuestas := snd (transaction_enviado (respuestas st) p) \<rparr>) = (res, sends, st3)"
      "evs = [Claim p True] @ sends @ [Remove p]"
      "st' = st\<lparr> respuestas := AList.delete p (snd (transaction_enviado (respuestas st) p)),
                  processedResponses := processedResponses st,
                  gw_calls := gw_calls st3 \<rparr>"
proof (cases "r_enviado r = Some True")
  case True
  with run show ?thesis by (intro cleanup) (auto simp: process_entry_unfold)
next
  case unsent: False
  show ?thesis
  proof (cases "p \<in> processedResponses st")
    case True
    with run unsent show ?thesis by (intro skip) (auto simp: process_entry_unfold)
  next
    case fresh: False
    show ?thesis
    proof (cases "usable_text (r_text r) = None \<or> messageTimestamp r < serviceStartupTime cfg")
      case True
      with run unsent fresh show ?thesis
        by (intro discard) (auto simp: process_entry_unfold)
    next
      case valid: False
      then obtain body where body: "usable_text (r_text r) = Some body" by auto
      show ?thesis
      proof (cases "fst (transaction_enviado (respuestas st) p)")
        case False
        then obtain r' where r': "map_of (respuestas st) p = Some r'" "r_enviado r' = Some True"
          by (auto simp: transaction_committed)
        from run unsent fresh valid False
        have "evs = [Claim p False]"
          "st' = st\<lparr> processedResponses := insert p (processedResponses st) \<rparr>"
          by (auto simp: process_entry_unfold)
        with unsent fresh valid r' show ?thesis by (intro lost) auto
      next
        case True
        obtain res sends st3 where sent:
          "send_claimed cfg p body
             (st\<lparr> processedResponses := insert p (processedResponses st),
                  respuestas := snd (transaction_enviado (respuestas st) p) \<rparr>) = (res, sends, st3)"
          by (metis prod_cases3)
        from send_claimed_cases(1)[OF sent]
        have st3: "st3 = st\<lparr> processedResponses := insert p (processedResponses st),
                  respuestas := snd (transaction_enviado (respuestas st) p),
                  gw_calls := gw_calls st3 \<rparr>"
          by simp
        from run unsent fresh valid True body sent
        have evs: "evs = [Claim p True] @ sends @ [Remove p]"
          and st': "st' = st3\<lparr> respuestas := AList.delete p (respuestas st3),
                   processedResponses := processedResponses st3 - {p} \<rparr>"
          by (auto simp: process_entry_unfold Let_def)
        have "st' = st\<lparr> respuestas := AList.delete p (snd (transaction_enviado (respuestas st) p)),
                  processedResponses := processedResponses st,
                  gw_calls := gw_calls st3 \<rparr>"
        proof -
          have r3: "respuestas st3 = snd (transaction_enviado (respuestas st) p)"
            using arg_cong[OF st3, of respuestas] by simp
          have p3: "processedResponses st3 = insert p (processedResponses st)"
            using arg_cong[OF st3, of processedResponses] by simp
          show ?thesis
            by (rule loop_state.equality) (use fresh in \<open>simp_all add: st' r3 p3\<close>)
        qed
        with unsent fresh valid True body sent evs show ?thesis
          by (intro claimed) (auto simp: transaction_committed)
      qed
    qed
  qed
qed


lemma send_claimed_about:
  assumes "send_claimed cfg q body st = (res, sends, st3)" "p \<noteq> q"
  shows "\<forall>e \<in> set sends. about e \<noteq> Some p"
  using send_claimed_cases(2)[OF assms(1)] assms(2) by auto

lemma process_entry_other:
  assumes run: "process_entry cfg (q, r) st = (evs, st')" and neq: "p \<noteq> q"
  shows "map_of (respuestas st') p = map_of (respuestas st) p"
    and "p \<in> processedResponses st' \<longleftrightarrow> p \<in> processedResponses st"
    and "\<forall>e \<in> set evs. about e \<noteq> Some p"
proof -
  show "map_of (respuestas st') p = map_of (respuestas st) p"
    using run neq by (cases rule: process_entry_cases) (simp_all add: delete_conv transaction_other)
  show "p \<in> processedResponses st' \<longleftrightarrow> p \<in> processedResponses st"
    using run neq by (cases rule: process_entry_cases) auto
  show "\<forall>e \<in> set evs. about e \<noteq> Some p"
    using run
  proof (cases rule: process_entry_cases)
    case (claimed body res sends st3)
    from send_claimed_about[OF claimed(6) neq] claimed(7) neq show ?thesis by simp
  qed (use neq in simp_all)
qed

lemma tick_entry_unfold:
  "tick_entry cfg (p, r) st =
     (if startsWith (fst (snd p)) ''web_'' then process_entry cfg (p, r) st else ([], st))"
  by (simp add: tick_entry_def case_prod_beta)

lemma tick_entry_other:
  assumes run: "tick_entry cfg (q, r) st = (evs, st')" and neq: "p \<noteq> q"
  shows "map_of (respuestas st') p = map_of (respuestas st) p
      \<and> (p \<in> processedResponses st' \<longleftrightarrow> p \<in> processedResponses st)
      \<and> (\<forall>e \<in> set evs. about e \<noteq> Some p)"
proof (cases "startsWith (fst (snd q)) ''web_''")
  case True
  with run have "process_entry cfg (q, r) st = (evs, st')"
    by (simp add: tick_entry_unfold)
  from process_entry_other[OF this neq] show ?thesis by blast
next
  case False
  with run have "evs = []" "st' = st"
    by (simp_all add: tick_entry_unfold)
  then show ?thesis by simp
qed

lemma run_entries_other:
  assumes "run_entries cfg xs st = (evs, st')" "p \<notin> fst ` set xs"
  shows "map_of (respuestas st') p = map_of (respuestas st) p
      \<and> (p \<in> processedResponses st' \<longleftrightarrow> p \<in> processedResponses st)
      \<and> (\<forall>e \<in> set evs. about e \<noteq> Some p)"
  using assms
proof (induction xs arbitrary: st evs st')
  case Nil
  then show ?case by simp
next
  case (Cons x xs)
  obtain q r where x: "x = (q, r)" by (cases x) auto
  obtain evs1 st1 where one: "tick_entry cfg (q, r) st = (evs1, st1)" by (metis surj_pair)
  obtain evs2 st2 where rest: "run_entries cfg xs st1 = (evs2, st2)" by (metis surj_pair)
  from Cons.prems(1) x one rest have res: "evs = evs1 @ evs2" "st' = st2" by auto
  from Cons.prems(2) x have neq: "p \<noteq> q" and notin: "p \<notin> fst ` set xs" by auto
  note A = tick_entry_other[OF one neq]
  note B = Cons.IH[OF rest notin]
  show ?case using A B res by auto
qed

lemma run_entries_append:
  "run_entries cfg (xs @ ys) st =
     (let (evs, st') = run_entries cfg xs st; (evs', st'') = run_entries cfg ys st'
      in (evs @ evs', st''))"
  by (induction xs arbitrary: st) (auto simp: Let_def split: prod.splits)

lemma tick_split:
  assumes dist: "distinct (map fst (respuestas st))"
    and mem: "(p, r) \<in> set (respuestas st)"
    and run: "tick cfg st = (evs, st')"
  shows "\<exists>evs1 st1 evs2 st2 evs3.
    evs = evs1 @ evs2 @ evs3
    \<and> tick_entry cfg (p, r) st1 = (evs2, st2)
    \<and> map_of (respuestas st1) p = Some r
    \<and> (p \<in> processedResponses st1 \<longleftrightarrow> p \<in> processedResponses st)
    \<and> (\<forall>e \<in> set evs1. about e \<noteq> Some p)
    \<and> (\<forall>e \<in> set evs3. about e \<noteq> Some p)
    \<and> map_of (respuestas st') p = map_of (respuestas st2) p
    \<and> (p \<in> processedResponses st' \<longleftrightarrow> p \<in> processedResponses st2)"
proof -
  from mem obtain ys zs where split: "respuestas st = ys @ (p, r) # zs"
    by (auto simp: in_set_conv_decomp)
  from dist split have notin: "p \<notin> fst ` set ys" "p \<notin> fst ` set zs" by auto
  from dist mem have live: "map_of (respuestas st) p = Some r" by simp
  obtain evs1 st1 where one: "run_entries cfg ys st = (evs1, st1)" by (metis surj_pair)
  obtain evs2 st2 where two: "tick_entry cfg (p, r) st1 = (evs2, st2)" by (metis surj_pair)
  obtain evs3 st3 where three: "run_entries cfg zs st2 = (evs3, st3)" by (metis surj_pair)
  from run split one two three have res: "evs = evs1 @ evs2 @ evs3" "st' = st3"
    by (auto simp: tick_def run_entries_append)
  note A = run_entries_other[OF one notin(1)]
  note B = run_entries_other[OF three notin(2)]
  have "evs = evs1 @ evs2 @ evs3
    \<and> tick_entry cfg (p, r) st1 = (evs2, st2)
    \<and> map_of (respuestas st1) p = Some r
    \<and> (p \<in> processedResponses st1 \<longleftrightarrow> p \<in> processedResponses st)
    \<and> (\<forall>e \<in> set evs1. about e \<noteq> Some p)
    \<and> (\<forall>e \<in> set evs3. about e \<noteq> Some p)
    \<and> map_of (respuestas st') p = map_of (respuestas st2) p
    \<and> (p \<in> processedResponses st' \<longleftrightarrow> p \<in> processedResponses st2)"
    using res two live A B by simp
  then show ?thesis by blast
qed

lemma tick_entry_deletes:
  assumes run: "tick_entry cfg (p, r) st = (evs, st')"
    and live: "map_of (respuestas st) p = Some r"
    and web: "startsWith (fst (snd p)) ''web_''"
    and new: "r_enviado r = Some True \<or> p \<notin> processedResponses st"
  shows "map_of (respuestas st') p = None"
proof -
  from run web have "process_entry cfg (p, r) st = (evs, st')"
    by (simp add: tick_entry_unfold)
  then show ?thesis
    using live new by (cases rule: process_entry_cases) (auto simp: delete_conv)
qed

lemma tick_entry_discards:
  assumes run: "tick_entry cfg (p, r) st = (evs, st')"
    and web: "startsWith (fst (snd p)) ''web_''"
    and new: "r_enviado r = Some True \<or> p \<notin> processedResponses st"
    and bad: "usable_text (r_text r) = None \<or> messageTimestamp r < serviceStartupTime cfg"
  shows "evs = [Remove p]" and "map_of (respuestas st') p = None"
proof -
  from run web have "process_entry cfg (p, r) st = (evs, st')"
    by (simp add: tick_entry_unfold)
  then show "evs = [Remove p]" and "map_of (respuestas st') p = None"
    using new bad by (cases rule: process_entry_cases; auto simp: delete_conv)+
qed

lemma tick_entry_claimed:
  assumes run: "tick_entry cfg (p, r) st = (evs, st')" and claimed: "Claim p True \<in> set evs"
  shows "map_of (respuestas st') p = None" and "last evs = Remove p"
    and "p \<notin> processedResponses st'"
proof -
  from run claimed have "process_entry cfg (p, r) st = (evs, st')"
    by (auto simp: tick_entry_unfold split: if_splits)
  then show "map_of (respuestas st') p = None" and "last evs = Remove p"
    and "p \<notin> processedResponses st'"
    using claimed by (cases rule: process_entry_cases; auto simp: delete_conv)+
qed

lemma send_claimed_attempts:
  assumes "send_claimed cfg p body st = (res, sends, st')"
  shows "sends = [] \<or>
         (\<exists>i n. retryWithBackoff (post_sendText cfg p i n body) 3 1000 st = (res, sends, st'))"
proof (cases "sends = []")
  case True
  then show ?thesis by simp
next
  case False
  obtain slug chatId responseId where p: "p = (slug, chatId, responseId)"
    by (cases p) auto
  obtain instanceName apiKey where
    route: "resolve_instance (cfg_db cfg) slug chatId = (instanceName, apiKey)"
    by (metis surj_pair)
  from assms False p route
  have "retryWithBackoff
          (post_sendText cfg p (render instanceName) (remove_first ''web_'' chatId) body)
          3 1000 st = (res, sends, st')"
    by (auto simp: send_claimed_def Let_def split: if_splits)
  then show ?thesis by blast
qed

lemma events_about_come_from_store:
  assumes "run_entries cfg xs st = (evs, st')" "e \<in> set evs" "about e = Some p"
  shows "p \<in> fst ` set xs"
  using run_entries_other[OF assms(1), of p] assms(2,3) by blast

lemma tick_entry_skips:
  assumes run: "tick_entry cfg (p, r) st = (evs, st')"
    and held: "p \<in> processedResponses st" and unsent: "r_enviado r \<noteq> Some True"
  shows "evs = []" and "st' = st"
  using assms by (auto simp: tick_entry_unfold process_entry_unfold split: if_splits)

lemma run_entries_skips:
  assumes "run_entries cfg xs st = (evs, st')"
    and "p \<in> processedResponses st"
    and "\<forall>r. (p, r) \<in> set xs \<longrightarrow> r_enviado r \<noteq> Some True"
  shows "p \<in> processedResponses st' \<and> (\<forall>e \<in> set evs. about e \<noteq> Some p)
       \<and> map_of (respuestas st') p = map_of (respuestas st) p"
  using assms
proof (induction xs arbitrary: st evs st')
  case Nil
  then show ?case by simp
next
  case (Cons x xs)
  obtain q r where x: "x = (q, r)" by (cases x) auto
  obtain evs1 st1 where one: "tick_entry cfg (q, r) st = (evs1, st1)" by (metis surj_pair)
  obtain evs2 st2 where rest: "run_entries cfg xs st1 = (evs2, st2)" by (metis surj_pair)
  from Cons.prems(1) x one rest have res: "evs = evs1 @ evs2" "st' = st2" by auto
  from Cons.prems(3) have later: "\<forall>r. (p, r) \<in> set xs \<longrightarrow> r_enviado r \<noteq> Some True" by simp
  have step: "p \<in> processedResponses st1 \<and> (\<forall>e \<in> set evs1. about e \<noteq> Some p)
       \<and> map_of (respuestas st1) p = map_of (respuestas st) p"
  proof (cases "q = p")
    case True
    with Cons.prems(3) x have "r_enviado r \<noteq> Some True" by simp
    from tick_entry_skips[OF one[unfolded True] Cons.prems(2) this] Cons.prems(2)
    show ?thesis by simp
  next
    case False
    then have "p \<noteq> q" by simp
    from tick_entry_other[OF one this] Cons.prems(2) show ?thesis by simp
  qed
  then have held: "p \<in> processedResponses st1" by simp
  from Cons.IH[OF rest held later] step res show ?case by auto
qed

lemma run_ticks_skips:
  assumes "run_ticks cfg stores st = (evs, st')"
    and "p \<in> processedResponses st"
    and "\<forall>found \<in> set stores. \<forall>r. (p, r) \<in> set found \<longrightarrow> r_enviado r \<noteq> Some True"
  shows "p \<in> processedResponses st' \<and> (\<forall>e \<in> set evs. about e \<noteq> Some p)"
  using assms
proof (induction stores arbitrary: st evs st')
  case Nil
  then show ?case by simp
next
  case (Cons found later)
  obtain evs1 st1 where one: "tick cfg (st\<lparr> respuestas := found \<rparr>) = (evs1, st1)"
    by (metis surj_pair)
  obtain evs2 st2 where rest: "run_ticks cfg later st1 = (evs2, st2)" by (metis surj_pair)
  from Cons.prems(1) one rest have res: "evs = evs1 @ evs2" "st' = st2" by auto
  from one have run: "run_entries cfg found (st\<lparr> respuestas := found \<rparr>) = (evs1, st1)"
    by (simp add: tick_def)
  from Cons.prems(2) have held: "p \<in> processedResponses (st\<lparr> respuestas := found \<rparr>)" by simp
  from Cons.prems(3) have unsent: "\<forall>r. (p, r) \<in> set found \<longrightarrow> r_enviado r \<noteq> Some True"
    and unsent': "\<forall>found \<in> set later. \<forall>r. (p, r) \<in> set found \<longrightarrow> r_enviado r \<noteq> Some True"
    by simp_all
  from run_entries_skips[OF run held unsent]
  have step: "p \<in> processedResponses st1" "\<forall>e \<in> set evs1. about e \<noteq> Some p" by simp_all
  from Cons.IH[OF rest step(1) unsent'] step res show ?case by auto
qed

lemma tick_entry_membership:
  assumes run: "tick_entry cfg (p, r) st = (evs, st')"
    and web: "startsWith (fst (snd p)) ''web_''"
  shows "p \<notin> processedResponses st' \<longleftrightarrow> r_enviado r = Some True \<or> Claim p True \<in> set evs"
proof -
  from run web have run': "process_entry cfg (p, r) st = (evs, st')"
    by (simp add: tick_entry_unfold)
  then show ?thesis
  proof (cases rule: process_entry_cases)
    case (claimed body res sends st3)
    then show ?thesis by simp
  qed auto
qed

subsection \<open>Guaranteed cleanup\<close>

text \<open>
  Claim C2. Whenever the loop body commits the claim of an entry, the entry is absent from
  the subtree once the body has run, and the removal is the last thing the body does:
  for every gateway (sends that succeed, that fail three times) and every store
  (no instance or credential to route to, reads that reject). In a whole tick over a
  subtree, every entry whose claim commits is absent when the tick ends.
\<close>

theorem claimed_entry_always_deleted:
  "(tick_entry cfg (p, r) st = (evs, st') \<and> Claim p True \<in> set evs
      \<longrightarrow> map_of (respuestas st') p = None \<and> last evs = Remove p)
   \<and> (distinct (map fst (respuestas s)) \<and> tick cfg s = (tevs, s') \<and> Claim p True \<in> set tevs
      \<longrightarrow> map_of (respuestas s') p = None)"
proof -
  have body: "map_of (respuestas st') p = None \<and> last evs = Remove p"
    if "tick_entry cfg (p, r) st = (evs, st')" "Claim p True \<in> set evs"
    using tick_entry_claimed(1,2)[OF that] by simp
  have whole: "map_of (respuestas s') p = None"
    if dist: "distinct (map fst (respuestas s))" and t: "tick cfg s = (tevs, s')"
      and claimed: "Claim p True \<in> set tevs"
  proof -
    from t have run: "run_entries cfg (respuestas s) s = (tevs, s')" by (simp add: tick_def)
    from events_about_come_from_store[OF run, of "Claim p True" p] claimed
    obtain r' where mem: "(p, r') \<in> set (respuestas s)" by auto
    from tick_split[OF dist mem t] obtain evs1 st1 evs2 st2 evs3 where
      parts: "tevs = evs1 @ evs2 @ evs3" "tick_entry cfg (p, r') st1 = (evs2, st2)"
        "\<forall>e \<in> set evs1. about e \<noteq> Some p" "\<forall>e \<in> set evs3. about e \<noteq> Some p"
        "map_of (respuestas s') p = map_of (respuestas st2) p"
      by blast
    from claimed parts(1,3,4) have "Claim p True \<in> set evs2" by auto
    from tick_entry_claimed(1)[OF parts(2) this] parts(5)
    show ?thesis by simp
  qed
  show ?thesis using body whole by blast
qed

theorem claimed_entry_always_deleted_witness:
  "Claim example_path True
     \<in> set (fst (tick_entry (example_cfg always_down) (example_path, example_response)
                   (example_state [(example_path, example_response)])))
   \<and> map_of (respuestas (snd (tick_entry (example_cfg always_down)
                                 (example_path, example_response)
                                 (example_state [(example_path, example_response)]))))
        example_path = None
   \<and> distinct (map fst (respuestas (example_state [(example_path, example_response)])))
   \<and> Claim example_path True
     \<in> set (fst (tick (example_cfg always_down)
                   (example_state [(example_path, example_response)])))
   \<and> map_of (respuestas (snd (tick (example_cfg always_down)
                                 (example_state [(example_path, example_response)]))))
        example_path = None"
proof -
  let ?cfg = "example_cfg always_down"
  let ?st = "example_state [(example_path, example_response)]"
  have one: "Claim example_path True
      \<in> set (fst (tick_entry ?cfg (example_path, example_response) ?st))"
    by code_simp
  have dist: "distinct (map fst (respuestas ?st))"
    by (simp add: example_state_def)
  have all: "Claim example_path True \<in> set (fst (tick ?cfg ?st))"
    by code_simp
  note T = claimed_entry_always_deleted[where cfg = ?cfg and p = example_path
      and r = example_response and st = ?st
      and evs = "fst (tick_entry ?cfg (example_path, example_response) ?st)"
      and st' = "snd (tick_entry ?cfg (example_path, example_response) ?st)"
      and s = ?st and tevs = "fst (tick ?cfg ?st)" and s' = "snd (tick ?cfg ?st)"]
  show ?thesis using T one dist all by simp
qed

lemma transaction_distinct:
  "distinct (map fst store) \<Longrightarrow> distinct (map fst (snd (transaction_enviado store p)))"
  by (simp add: transaction_enviado_def distinct_update split: option.splits)

lemma process_entry_distinct:
  assumes run: "process_entry cfg (p, r) st = (evs, st')"
    and dist: "distinct (map fst (respuestas st))"
  shows "distinct (map fst (respuestas st'))"
  using run dist
  by (cases rule: process_entry_cases) (simp_all add: distinct_delete transaction_distinct)

lemma tick_entry_distinct:
  assumes run: "tick_entry cfg (p, r) st = (evs, st')"
    and dist: "distinct (map fst (respuestas st))"
  shows "distinct (map fst (respuestas st'))"
proof (cases "startsWith (fst (snd p)) ''web_''")
  case True
  with run have "process_entry cfg (p, r) st = (evs, st')" by (simp add: tick_entry_unfold)
  from process_entry_distinct[OF this dist] show ?thesis .
next
  case False
  with run dist show ?thesis by (simp add: tick_entry_unfold)
qed

lemma run_entries_distinct:
  assumes "run_entries cfg xs st = (evs, st')" "distinct (map fst (respuestas st))"
  shows "distinct (map fst (respuestas st'))"
  using assms
proof (induction xs arbitrary: st evs st')
  case Nil
  then show ?case by simp
next
  case (Cons x xs)
  obtain q r where x: "x = (q, r)" by (cases x) auto
  obtain evs1 st1 where one: "tick_entry cfg (q, r) st = (evs1, st1)" by (metis surj_pair)
  obtain evs2 st2 where rest: "run_entries cfg xs st1 = (evs2, st2)" by (metis surj_pair)
  from Cons.prems(1) x one rest have res: "st' = st2" by auto
  from tick_entry_distinct[OF one Cons.prems(2)] have "distinct (map fst (respuestas st1))" .
  from Cons.IH[OF rest this] res show ?case by simp
qed

lemma run_entries_split:
  assumes dist: "distinct (map fst xs)"
    and mem: "(p, r) \<in> set xs"
    and run: "run_entries cfg xs st = (evs, st')"
  shows "\<exists>evs1 st1 evs2 st2 evs3.
    evs = evs1 @ evs2 @ evs3
    \<and> tick_entry cfg (p, r) st1 = (evs2, st2)
    \<and> map_of (respuestas st1) p = map_of (respuestas st) p
    \<and> (p \<in> processedResponses st1 \<longleftrightarrow> p \<in> processedResponses st)
    \<and> (\<forall>e \<in> set evs1. about e \<noteq> Some p)
    \<and> (\<forall>e \<in> set evs3. about e \<noteq> Some p)
    \<and> map_of (respuestas st') p = map_of (respuestas st2) p
    \<and> (p \<in> processedResponses st' \<longleftrightarrow> p \<in> processedResponses st2)"
proof -
  from mem obtain ys zs where split: "xs = ys @ (p, r) # zs"
    by (auto simp: in_set_conv_decomp)
  from dist split have notin: "p \<notin> fst ` set ys" "p \<notin> fst ` set zs" by auto
  obtain evs1 st1 where one: "run_entries cfg ys st = (evs1, st1)" by (metis surj_pair)
  obtain evs2 st2 where two: "tick_entry cfg (p, r) st1 = (evs2, st2)" by (metis surj_pair)
  obtain evs3 st3 where three: "run_entries cfg zs st2 = (evs3, st3)" by (metis surj_pair)
  from run split one two three have res: "evs = evs1 @ evs2 @ evs3" "st' = st3"
    by (auto simp: run_entries_append)
  note A = run_entries_other[OF one notin(1)]
  note B = run_entries_other[OF three notin(2)]
  have "evs = evs1 @ evs2 @ evs3
    \<and> tick_entry cfg (p, r) st1 = (evs2, st2)
    \<and> map_of (respuestas st1) p = map_of (respuestas st) p
    \<and> (p \<in> processedResponses st1 \<longleftrightarrow> p \<in> processedResponses st)
    \<and> (\<forall>e \<in> set evs1. about e \<noteq> Some p)
    \<and> (\<forall>e \<in> set evs3. about e \<noteq> Some p)
    \<and> map_of (respuestas st') p = map_of (respuestas st2) p
    \<and> (p \<in> processedResponses st' \<longleftrightarrow> p \<in> processedResponses st2)"
    using res two A B by simp
  then show ?thesis by blast
qed

lemma tick_entry_cleanup:
  assumes run: "tick_entry cfg (p, r) st = (evs, st')"
    and web: "startsWith (fst (snd p)) ''web_''"
    and sent: "r_enviado r = Some True"
  shows "evs = [Remove p]" and "map_of (respuestas st') p = None"
proof -
  from run web have "process_entry cfg (p, r) st = (evs, st')"
    by (simp add: tick_entry_unfold)
  then show "evs = [Remove p]" and "map_of (respuestas st') p = None"
    using sent by (auto simp: process_entry_unfold delete_conv)
qed

lemma tick_entry_removes_or_loses:
  assumes run: "tick_entry cfg (p, r) st = (evs, st')"
    and web: "startsWith (fst (snd p)) ''web_''"
    and new: "r_enviado r = Some True \<or> p \<notin> processedResponses st"
  shows "(Remove p \<in> set evs \<and> map_of (respuestas st') p = None)
       \<or> (evs = [Claim p False] \<and> respuestas st' = respuestas st
          \<and> (\<exists>r'. map_of (respuestas st) p = Some r' \<and> r_enviado r' = Some True))"
proof -
  from run web have "process_entry cfg (p, r) st = (evs, st')"
    by (simp add: tick_entry_unfold)
  then show ?thesis
    using new by (cases rule: process_entry_cases) (simp_all add: delete_conv)
qed

lemma tick_absent_stays:
  assumes run: "tick cfg st = (evs, st')" and absent: "map_of (respuestas st) p = None"
  shows "map_of (respuestas st') p = None" and "\<forall>e \<in> set evs. about e \<noteq> Some p"
proof -
  from absent have notin: "p \<notin> fst ` set (respuestas st)"
    by (simp add: map_of_eq_None_iff)
  from run have "run_entries cfg (respuestas st) st = (evs, st')" by (simp add: tick_def)
  from run_entries_other[OF this notin] absent
  show "map_of (respuestas st') p = None" and "\<forall>e \<in> set evs. about e \<noteq> Some p"
    by simp_all
qed

lemma stale_tick_then_tick:
  assumes dsnap: "distinct (map fst snap)" and dlive: "distinct (map fst (respuestas s))"
    and mem: "(p, r) \<in> set snap"
    and web: "startsWith (fst (snd p)) ''web_''"
    and new: "r_enviado r = Some True \<or> p \<notin> processedResponses s"
    and first: "run_entries cfg snap s = (evs1, s1)"
    and second: "tick cfg s1 = (evs2, s2)"
  shows "map_of (respuestas s2) p = None" and "Remove p \<in> set (evs1 @ evs2)"
proof -
  from run_entries_split[OF dsnap mem first] obtain evsA sA evsB sB evsC where
    parts: "evs1 = evsA @ evsB @ evsC" "tick_entry cfg (p, r) sA = (evsB, sB)"
      "p \<in> processedResponses sA \<longleftrightarrow> p \<in> processedResponses s"
      "map_of (respuestas s1) p = map_of (respuestas sB) p"
    by blast
  from new parts(3) have new': "r_enviado r = Some True \<or> p \<notin> processedResponses sA" by simp
  from tick_entry_removes_or_loses[OF parts(2) web new']
  consider (removed) "Remove p \<in> set evsB" "map_of (respuestas sB) p = None"
    | (lost) r' where "respuestas sB = respuestas sA" "map_of (respuestas sA) p = Some r'"
        "r_enviado r' = Some True"
    by (elim disjE conjE exE) blast+
  then have "map_of (respuestas s2) p = None \<and> Remove p \<in> set (evs1 @ evs2)"
  proof cases
    case removed
    with parts(4) have "map_of (respuestas s1) p = None" by simp
    from tick_absent_stays(1)[OF second this] removed(1) parts(1) show ?thesis by simp
  next
    case lost
    with parts(4) have live: "map_of (respuestas s1) p = Some r'" by simp
    then have mem1: "(p, r') \<in> set (respuestas s1)" by (rule map_of_SomeD)
    from run_entries_distinct[OF first dlive] have d1: "distinct (map fst (respuestas s1))" .
    from tick_split[OF d1 mem1 second] obtain evsX sX evsY sY evsZ where
      again: "evs2 = evsX @ evsY @ evsZ" "tick_entry cfg (p, r') sX = (evsY, sY)"
        "map_of (respuestas s2) p = map_of (respuestas sY) p"
      by blast
    from tick_entry_cleanup[OF again(2) web lost(3)] again(1,3) show ?thesis by simp
  qed
  then show "map_of (respuestas s2) p = None" and "Remove p \<in> set (evs1 @ evs2)"
    by simp_all
qed

subsection \<open>Which entries a tick deletes\<close>

text \<open>
  Claim C3, amended. Every entry of a conversation whose id starts with \<open>web_\<close>, that is
  marked sent or whose path the process does not hold in \<open>processedResponses\<close>, is
  eventually deleted by the loop. The loop body that reads it removes it, after the send
  whatever its outcome, or at once when the entry is malformed, stale or marked sent,
  unless it loses the claim because the store already marks the entry sent; the entry
  then stays marked sent, and a loop body that reads an entry marked sent removes it at
  once. So after a tick whose snapshot was stale and a following tick the entry is gone
  and its removal is among the events, and after a tick that reads the subtree as it is
  the entry is gone. An entry of a conversation whose id does not start with \<open>web_\<close> is
  skipped: it is still there when the tick ends, and no event of the tick is about it.
\<close>

theorem web_entries_eventually_deleted:
  "(tick_entry cfg (p, r) st = (evs, st') \<and> startsWith (fst (snd p)) ''web_''
      \<and> (r_enviado r = Some True \<or> p \<notin> processedResponses st)
    \<longrightarrow> (Remove p \<in> set evs \<and> map_of (respuestas st') p = None)
        \<or> (evs = [Claim p False] \<and> respuestas st' = respuestas st
           \<and> (\<exists>r'. map_of (respuestas st) p = Some r' \<and> r_enviado r' = Some True)))
   \<and> (tick_entry cfg (p, r) st = (evs, st') \<and> startsWith (fst (snd p)) ''web_''
      \<and> r_enviado r = Some True
    \<longrightarrow> evs = [Remove p] \<and> map_of (respuestas st') p = None)
   \<and> (tick_entry cfg (p, r) st = (evs, st') \<and> \<not> startsWith (fst (snd p)) ''web_''
    \<longrightarrow> evs = [] \<and> st' = st)
   \<and> (distinct (map fst snap) \<and> distinct (map fst (respuestas s)) \<and> (p, r) \<in> set snap
      \<and> startsWith (fst (snd p)) ''web_''
      \<and> (r_enviado r = Some True \<or> p \<notin> processedResponses s)
      \<and> run_entries cfg snap s = (evs1, s1) \<and> tick cfg s1 = (evs2, s2)
    \<longrightarrow> map_of (respuestas s2) p = None \<and> Remove p \<in> set (evs1 @ evs2))
   \<and> (distinct (map fst (respuestas w)) \<and> (p, r) \<in> set (respuestas w)
      \<and> tick cfg w = (tevs, w')
    \<longrightarrow> (startsWith (fst (snd p)) ''web_''
           \<and> (r_enviado r = Some True \<or> p \<notin> processedResponses w)
         \<longrightarrow> map_of (respuestas w') p = None)
       \<and> (\<not> startsWith (fst (snd p)) ''web_''
         \<longrightarrow> map_of (respuestas w') p = Some r \<and> filter (\<lambda>e. about e = Some p) tevs = []))"
proof -
  have body: "(Remove p \<in> set evs \<and> map_of (respuestas st') p = None)
        \<or> (evs = [Claim p False] \<and> respuestas st' = respuestas st
           \<and> (\<exists>r'. map_of (respuestas st) p = Some r' \<and> r_enviado r' = Some True))"
    if "tick_entry cfg (p, r) st = (evs, st')" "startsWith (fst (snd p)) ''web_''"
      "r_enviado r = Some True \<or> p \<notin> processedResponses st"
    using tick_entry_removes_or_loses[OF that] .
  have cleanup: "evs = [Remove p] \<and> map_of (respuestas st') p = None"
    if "tick_entry cfg (p, r) st = (evs, st')" "startsWith (fst (snd p)) ''web_''"
      "r_enviado r = Some True"
    using tick_entry_cleanup[OF that] by simp
  have skipped: "evs = [] \<and> st' = st"
    if "tick_entry cfg (p, r) st = (evs, st')" "\<not> startsWith (fst (snd p)) ''web_''"
    using that by (simp add: tick_entry_unfold)
  have twice: "map_of (respuestas s2) p = None \<and> Remove p \<in> set (evs1 @ evs2)"
    if "distinct (map fst snap)" "distinct (map fst (respuestas s))" "(p, r) \<in> set snap"
      "startsWith (fst (snd p)) ''web_''" "r_enviado r = Some True \<or> p \<notin> processedResponses s"
      "run_entries cfg snap s = (evs1, s1)" "tick cfg s1 = (evs2, s2)"
    using stale_tick_then_tick[OF that] by simp
  have once: "(startsWith (fst (snd p)) ''web_''
           \<and> (r_enviado r = Some True \<or> p \<notin> processedResponses w)
         \<longrightarrow> map_of (respuestas w') p = None)
       \<and> (\<not> startsWith (fst (snd p)) ''web_''
         \<longrightarrow> map_of (respuestas w') p = Some r \<and> filter (\<lambda>e. about e = Some p) tevs = [])"
    if dist: "distinct (map fst (respuestas w))" and mem: "(p, r) \<in> set (respuestas w)"
      and run: "tick cfg w = (tevs, w')"
  proof -
    from tick_split[OF dist mem run] obtain evsA stA evsB stB evsC where
      parts: "tevs = evsA @ evsB @ evsC" "tick_entry cfg (p, r) stA = (evsB, stB)"
        "map_of (respuestas stA) p = Some r"
        "p \<in> processedResponses stA \<longleftrightarrow> p \<in> processedResponses w"
        "\<forall>e \<in> set evsA. about e \<noteq> Some p" "\<forall>e \<in> set evsC. about e \<noteq> Some p"
        "map_of (respuestas w') p = map_of (respuestas stB) p"
      by blast
    have web: "map_of (respuestas w') p = None"
      if "startsWith (fst (snd p)) ''web_''" "r_enviado r = Some True \<or> p \<notin> processedResponses w"
      using tick_entry_deletes[OF parts(2,3) that(1)] that(2) parts(4,7) by simp
    have other: "map_of (respuestas w') p = Some r \<and> filter (\<lambda>e. about e = Some p) tevs = []"
      if "\<not> startsWith (fst (snd p)) ''web_''"
    proof -
      from parts(2) that have "evsB = []" "stB = stA"
        by (simp_all add: tick_entry_unfold)
      with parts show ?thesis by (simp add: filter_empty_conv)
    qed
    show ?thesis using web other by blast
  qed
  show ?thesis using body cleanup skipped twice once by blast
qed

theorem web_entries_eventually_deleted_witness:
  "startsWith (fst (snd example_path)) ''web_''
   \<and> \<not> startsWith (fst (snd other_path)) ''web_''
   \<and> example_path \<notin> processedResponses (example_state [(example_path, sent_response)])
   \<and> fst (tick_entry (example_cfg always_up) (example_path, example_response)
            (example_state [(example_path, sent_response)])) = [Claim example_path False]
   \<and> map_of (respuestas (example_state [(example_path, sent_response)])) example_path
       = Some sent_response
   \<and> r_enviado sent_response = Some True
   \<and> map_of (respuestas (snd (tick (example_cfg always_up)
         (snd (run_entries (example_cfg always_up) [(example_path, example_response)]
                 (example_state [(example_path, sent_response)])))))) example_path = None
   \<and> Remove example_path
       \<in> set (fst (run_entries (example_cfg always_up) [(example_path, example_response)]
                     (example_state [(example_path, sent_response)]))
              @ fst (tick (example_cfg always_up)
                      (snd (run_entries (example_cfg always_up) [(example_path, example_response)]
                              (example_state [(example_path, sent_response)])))))
   \<and> map_of (respuestas (snd (tick (example_cfg always_up)
                (example_state [(other_path, example_response),
                                (example_path, example_response)])))) example_path = None
   \<and> map_of (respuestas (snd (tick (example_cfg always_up)
                (example_state [(other_path, example_response),
                                (example_path, example_response)])))) other_path
        = Some example_response"
proof -
  let ?cfg = "example_cfg always_up"
  let ?live = "example_state [(example_path, sent_response)]"
  let ?body = "tick_entry ?cfg (example_path, example_response) ?live"
  let ?snap = "[(example_path, example_response)]"
  let ?first = "run_entries ?cfg ?snap ?live"
  let ?second = "tick ?cfg (snd ?first)"
  let ?w = "example_state [(other_path, example_response), (example_path, example_response)]"
  have web: "startsWith (fst (snd example_path)) ''web_''"
    and other: "\<not> startsWith (fst (snd other_path)) ''web_''"
    by (simp_all add: example_path_def other_path_def startsWith_def)
  have new: "example_path \<notin> processedResponses ?live" "example_path \<notin> processedResponses ?w"
    by (simp_all add: example_state_def)
  have body: "?body = (fst ?body, snd ?body)" and first: "?first = (fst ?first, snd ?first)"
    and second: "?second = (fst ?second, snd ?second)"
    and once: "tick ?cfg ?w = (fst (tick ?cfg ?w), snd (tick ?cfg ?w))"
    by simp_all
  have dsnap: "distinct (map fst ?snap)" and dlive: "distinct (map fst (respuestas ?live))"
    and dw: "distinct (map fst (respuestas ?w))"
    by (simp_all add: example_state_def other_path_def example_path_def)
  have mem: "(example_path, example_response) \<in> set ?snap"
    and memw: "(example_path, example_response) \<in> set (respuestas ?w)"
    and memo: "(other_path, example_response) \<in> set (respuestas ?w)"
    by (simp_all add: example_state_def)
  have lost: "fst ?body = [Claim example_path False]"
    by code_simp
  have live: "map_of (respuestas ?live) example_path = Some sent_response"
    by (simp add: example_state_def)
  have sent: "r_enviado sent_response = Some True"
    by (simp add: sent_response_def)
  note A = web_entries_eventually_deleted[where cfg = ?cfg and p = example_path
      and r = example_response and st = ?live and evs = "fst ?body" and st' = "snd ?body"
      and snap = ?snap and s = ?live and ?evs1.0 = "fst ?first" and ?s1.0 = "snd ?first"
      and ?evs2.0 = "fst ?second" and ?s2.0 = "snd ?second"
      and w = ?w and tevs = "fst (tick ?cfg ?w)" and w' = "snd (tick ?cfg ?w)"]
  note B = web_entries_eventually_deleted[where cfg = ?cfg and p = other_path
      and r = example_response and w = ?w and tevs = "fst (tick ?cfg ?w)"
      and w' = "snd (tick ?cfg ?w)"]
  from A dsnap dlive mem web new(1) first second
  have twice: "map_of (respuestas (snd ?second)) example_path = None
      \<and> Remove example_path \<in> set (fst ?first @ fst ?second)"
    by blast
  from A dw memw once web new(2)
  have gone: "map_of (respuestas (snd (tick ?cfg ?w))) example_path = None"
    by blast
  from B dw memo once other
  have kept: "map_of (respuestas (snd (tick ?cfg ?w))) other_path = Some example_response"
    by blast
  show ?thesis
    using web other new(1) lost live sent twice gone kept by (intro conjI) (assumption | simp)+
qed

text \<open>
  The claim as stated fails: an entry of the conversation \<open>tg_18095550100\<close> is left where
  it is by every tick, and an entry written again at a path that the validity check has
  deleted before is left where it is as well.
\<close>

theorem every_entry_deleted_counterexample:
  "tick (example_cfg always_up) (example_state [(other_path, example_response)])
     = ([], example_state [(other_path, example_response)])
   \<and> fst (run_ticks (example_cfg always_up)
             [[(example_path, malformed_response)], [(example_path, example_response)],
              [(example_path, example_response)]] (example_state []))
     = [Remove example_path]
   \<and> respuestas (snd (run_ticks (example_cfg always_up)
             [[(example_path, malformed_response)], [(example_path, example_response)],
              [(example_path, example_response)]] (example_state [])))
     = [(example_path, example_response)]"
proof -
  have a: "tick (example_cfg always_up) (example_state [(other_path, example_response)])
     = ([], example_state [(other_path, example_response)])"
    by (simp add: tick_def tick_entry_unfold other_path_def startsWith_def example_state_def)
  have b: "fst (run_ticks (example_cfg always_up)
             [[(example_path, malformed_response)], [(example_path, example_response)],
              [(example_path, example_response)]] (example_state []))
     = [Remove example_path]"
    by code_simp
  have c: "respuestas (snd (run_ticks (example_cfg always_up)
             [[(example_path, malformed_response)], [(example_path, example_response)],
              [(example_path, example_response)]] (example_state [])))
     = [(example_path, example_response)]"
    by code_simp
  show ?thesis using a b c by simp
qed

subsection \<open>Startup-time guard\<close>

text \<open>
  Claim C6, amended. A tick reads a subtree with distinct paths. Every entry of a
  conversation whose id starts with \<open>web_\<close>, that is marked sent or whose path the process
  does not hold in \<open>processedResponses\<close>, and whose \<open>ts\<close> (0 when absent) is less than the
  start time of the process, is absent when the tick ends, and the only event of the tick
  about it is its removal: no gateway call is made for it.
\<close>

theorem stale_entry_deleted_without_send:
  assumes dist: "distinct (map fst (respuestas st))"
    and mem: "(p, r) \<in> set (respuestas st)"
    and run: "tick cfg st = (evs, st')"
    and web: "startsWith (fst (snd p)) ''web_''"
    and new: "r_enviado r = Some True \<or> p \<notin> processedResponses st"
    and stale: "messageTimestamp r < serviceStartupTime cfg"
  shows "map_of (respuestas st') p = None
       \<and> filter (\<lambda>e. about e = Some p) evs = [Remove p]"
proof -
  from tick_split[OF dist mem run] obtain evs1 st1 evs2 st2 evs3 where
    parts: "evs = evs1 @ evs2 @ evs3" "tick_entry cfg (p, r) st1 = (evs2, st2)"
      "p \<in> processedResponses st1 \<longleftrightarrow> p \<in> processedResponses st"
      "\<forall>e \<in> set evs1. about e \<noteq> Some p" "\<forall>e \<in> set evs3. about e \<noteq> Some p"
      "map_of (respuestas st') p = map_of (respuestas st2) p"
    by blast
  from new parts(3) have new': "r_enviado r = Some True \<or> p \<notin> processedResponses st1"
    by simp
  from stale
  have bad: "usable_text (r_text r) = None \<or> messageTimestamp r < serviceStartupTime cfg"
    by simp
  note D = tick_entry_discards[OF parts(2) web new' bad]
  have "filter (\<lambda>e. about e = Some p) evs1 = []" "filter (\<lambda>e. about e = Some p) evs3 = []"
    using parts(4,5) by (simp_all add: filter_empty_conv)
  with D parts(1,6) show ?thesis by simp
qed

theorem stale_entry_deleted_without_send_witness:
  "distinct (map fst (respuestas (example_state [(example_path, stale_response)])))
   \<and> startsWith (fst (snd example_path)) ''web_''
   \<and> example_path \<notin> processedResponses (example_state [(example_path, stale_response)])
   \<and> messageTimestamp stale_response < serviceStartupTime (example_cfg always_up)
   \<and> map_of (respuestas (snd (tick (example_cfg always_up)
                (example_state [(example_path, stale_response)])))) example_path = None
   \<and> filter (\<lambda>e. about e = Some example_path)
        (fst (tick (example_cfg always_up) (example_state [(example_path, stale_response)])))
      = [Remove example_path]"
proof -
  let ?st = "example_state [(example_path, stale_response)]"
  have dist: "distinct (map fst (respuestas ?st))"
    by (simp add: example_state_def)
  have mem: "(example_path, stale_response) \<in> set (respuestas ?st)"
    by (simp add: example_state_def)
  have run: "tick (example_cfg always_up) ?st
      = (fst (tick (example_cfg always_up) ?st), snd (tick (example_cfg always_up) ?st))"
    by simp
  have web: "startsWith (fst (snd example_path)) ''web_''"
    by (simp add: example_path_def startsWith_def)
  have new: "r_enviado stale_response = Some True \<or> example_path \<notin> processedResponses ?st"
    by (simp add: example_state_def)
  have stale: "messageTimestamp stale_response < serviceStartupTime (example_cfg always_up)"
    by (simp add: messageTimestamp_def stale_response_def example_cfg_def)
  note T = stale_entry_deleted_without_send[OF dist mem run web new stale]
  show ?thesis using T dist web new stale by (simp add: example_state_def)
qed

text \<open>
  The claim as stated fails: a stale entry of the conversation \<open>tg_18095550100\<close> is left
  where it is, and so is a stale entry written again at a path that the guard has
  deleted before.
\<close>

theorem stale_entry_deleted_counterexample:
  "messageTimestamp stale_response < serviceStartupTime (example_cfg always_up)
   \<and> tick (example_cfg always_up) (example_state [(other_path, stale_response)])
     = ([], example_state [(other_path, stale_response)])
   \<and> fst (run_ticks (example_cfg always_up)
             [[(example_path, stale_response)], [(example_path, stale_response)]]
             (example_state []))
     = [Remove example_path]
   \<and> respuestas (snd (run_ticks (example_cfg always_up)
             [[(example_path, stale_response)], [(example_path, stale_response)]]
             (example_state [])))
     = [(example_path, stale_response)]"
proof -
  have s: "messageTimestamp stale_response < serviceStartupTime (example_cfg always_up)"
    by (simp add: messageTimestamp_def stale_response_def example_cfg_def)
  have a: "tick (example_cfg always_up) (example_state [(other_path, stale_response)])
     = ([], example_state [(other_path, stale_response)])"
    by (simp add: tick_def tick_entry_unfold other_path_def startsWith_def example_state_def)
  have b: "fst (run_ticks (example_cfg always_up)
             [[(example_path, stale_response)], [(example_path, stale_response)]]
             (example_state []))
     = [Remove example_path]"
    by code_simp
  have c: "respuestas (snd (run_ticks (example_cfg always_up)
             [[(example_path, stale_response)], [(example_path, stale_response)]]
             (example_state [])))
     = [(example_path, stale_response)]"
    by code_simp
  show ?thesis using s a b c by simp
qed

subsection \<open>Malformed entries\<close>

text \<open>
  Claim C8, amended. A tick reads a subtree with distinct paths. Every entry of a
  conversation whose id starts with \<open>web_\<close>, that is marked sent or whose path the process
  does not hold in \<open>processedResponses\<close>, and whose \<open>text\<close> is missing or not a string, is
  absent when the tick ends, and the only event of the tick about it is its removal: no
  gateway call is made for it.
\<close>

theorem malformed_entry_deleted_without_send:
  assumes dist: "distinct (map fst (respuestas st))"
    and mem: "(p, r) \<in> set (respuestas st)"
    and run: "tick cfg st = (evs, st')"
    and web: "startsWith (fst (snd p)) ''web_''"
    and new: "r_enviado r = Some True \<or> p \<notin> processedResponses st"
    and malformed: "\<forall>s. r_text r \<noteq> Some (JStr s)"
  shows "map_of (respuestas st') p = None
       \<and> filter (\<lambda>e. about e = Some p) evs = [Remove p]"
proof -
  from tick_split[OF dist mem run] obtain evs1 st1 evs2 st2 evs3 where
    parts: "evs = evs1 @ evs2 @ evs3" "tick_entry cfg (p, r) st1 = (evs2, st2)"
      "p \<in> processedResponses st1 \<longleftrightarrow> p \<in> processedResponses st"
      "\<forall>e \<in> set evs1. about e \<noteq> Some p" "\<forall>e \<in> set evs3. about e \<noteq> Some p"
      "map_of (respuestas st') p = map_of (respuestas st2) p"
    by blast
  from new parts(3) have new': "r_enviado r = Some True \<or> p \<notin> processedResponses st1"
    by simp
  from malformed have "usable_text (r_text r) = None"
    by (cases "r_text r" rule: usable_text.cases) simp_all
  then have bad: "usable_text (r_text r) = None \<or> messageTimestamp r < serviceStartupTime cfg"
    by simp
  note D = tick_entry_discards[OF parts(2) web new' bad]
  have "filter (\<lambda>e. about e = Some p) evs1 = []" "filter (\<lambda>e. about e = Some p) evs3 = []"
    using parts(4,5) by (simp_all add: filter_empty_conv)
  with D parts(1,6) show ?thesis by simp
qed

theorem malformed_entry_deleted_without_send_witness:
  "distinct (map fst (respuestas (example_state [(example_path, malformed_response)])))
   \<and> startsWith (fst (snd example_path)) ''web_''
   \<and> example_path \<notin> processedResponses (example_state [(example_path, malformed_response)])
   \<and> (\<forall>s. r_text malformed_response \<noteq> Some (JStr s))
   \<and> map_of (respuestas (snd (tick (example_cfg always_up)
                (example_state [(example_path, malformed_response)])))) example_path = None
   \<and> filter (\<lambda>e. about e = Some example_path)
        (fst (tick (example_cfg always_up) (example_state [(example_path, malformed_response)])))
      = [Remove example_path]"
proof -
  let ?st = "example_state [(example_path, malformed_response)]"
  have dist: "distinct (map fst (respuestas ?st))"
    by (simp add: example_state_def)
  have mem: "(example_path, malformed_response) \<in> set (respuestas ?st)"
    by (simp add: example_state_def)
  have run: "tick (example_cfg always_up) ?st
      = (fst (tick (example_cfg always_up) ?st), snd (tick (example_cfg always_up) ?st))"
    by simp
  have web: "startsWith (fst (snd example_path)) ''web_''"
    by (simp add: example_path_def startsWith_def)
  have new: "r_enviado malformed_response = Some True \<or> example_path \<notin> processedResponses ?st"
    by (simp add: example_state_def)
  have malformed: "\<forall>s. r_text malformed_response \<noteq> Some (JStr s)"
    by (simp add: malformed_response_def)
  note T = malformed_entry_deleted_without_send[OF dist mem run web new malformed]
  show ?thesis using T dist web new malformed by (simp add: example_state_def)
qed

text \<open>
  The claim as stated fails: an entry without a usable text of the conversation
  \<open>tg_18095550100\<close> is left where it is, and so is such an entry written again at a path
  that the validity check has deleted before.
\<close>

theorem malformed_entry_deleted_counterexample:
  "r_text malformed_response = Some (JNum 7)
   \<and> tick (example_cfg always_up) (example_state [(other_path, malformed_response)])
     = ([], example_state [(other_path, malformed_response)])
   \<and> fst (run_ticks (example_cfg always_up)
             [[(example_path, malformed_response)], [(example_path, malformed_response)]]
             (example_state []))
     = [Remove example_path]
   \<and> respuestas (snd (run_ticks (example_cfg always_up)
             [[(example_path, malformed_response)], [(example_path, malformed_response)]]
             (example_state [])))
     = [(example_path, malformed_response)]"
proof -
  have s: "r_text malformed_response = Some (JNum 7)"
    by (simp add: malformed_response_def)
  have a: "tick (example_cfg always_up) (example_state [(other_path, malformed_response)])
     = ([], example_state [(other_path, malformed_response)])"
    by (simp add: tick_def tick_entry_unfold other_path_def startsWith_def example_state_def)
  have b: "fst (run_ticks (example_cfg always_up)
             [[(example_path, malformed_response)], [(example_path, malformed_response)]]
             (example_state []))
     = [Remove example_path]"
    by code_simp
  have c: "respuestas (snd (run_ticks (example_cfg always_up)
             [[(example_path, malformed_response)], [(example_path, malformed_response)]]
             (example_state [])))
     = [(example_path, malformed_response)]"
    by code_simp
  show ?thesis using s a b c by simp
qed

subsection \<open>Send with retry\<close>

text \<open>
  Claim C4, amended. For every claimed entry the loop body makes at most three gateway
  calls, waits 1000 ms after the first failed call and 2000 ms after the second, and
  nothing after the third: no wait of 4000 ms occurs. The first success ends the
  attempts. When a send is attempted and the gateway fails twice and then succeeds, the
  events are two failed calls and one successful call with the two waits between them.
  In every case the removal of the entry is the last event, and the entry is absent
  afterwards.
\<close>

theorem send_retry_schedule:
  assumes run: "tick_entry cfg (p, r) st = (evs, st')" and claimed: "Claim p True \<in> set evs"
  shows "\<exists>i n body sends.
           usable_text (r_text r) = Some body
         \<and> evs = [Claim p True] @ sends @ [Remove p]
         \<and> sends \<in> {[],
               [SendText p i n body True],
               [SendText p i n body False, Sleep 1000, SendText p i n body True],
               [SendText p i n body False, Sleep 1000, SendText p i n body False, Sleep 2000,
                SendText p i n body True],
               [SendText p i n body False, Sleep 1000, SendText p i n body False, Sleep 2000,
                SendText p i n body False]}
         \<and> (sends \<noteq> [] \<and> \<not> gw cfg (gw_calls st) \<and> \<not> gw cfg (Suc (gw_calls st))
              \<and> gw cfg (Suc (Suc (gw_calls st)))
            \<longrightarrow> sends = [SendText p i n body False, Sleep 1000, SendText p i n body False,
                         Sleep 2000, SendText p i n body True])
         \<and> map_of (respuestas st') p = None"
proof -
  from run claimed have run': "process_entry cfg (p, r) st = (evs, st')"
    by (auto simp: tick_entry_unfold split: if_splits)
  from tick_entry_claimed(1)[OF run claimed] have gone: "map_of (respuestas st') p = None" .
  from run' show ?thesis
  proof (cases rule: process_entry_cases)
    case (claimed body res sends st3)
    let ?st2 = "st\<lparr> processedResponses := insert p (processedResponses st),
                      respuestas := snd (transaction_enviado (respuestas st) p) \<rparr>"
    have calls: "gw_calls ?st2 = gw_calls st" by simp
    from send_claimed_attempts[OF claimed(6)]
    consider "sends = []"
      | i n where "retryWithBackoff (post_sendText cfg p i n body) 3 1000 ?st2 = (res, sends, st3)"
      by blast
    then show ?thesis
    proof cases
      case 1
      with claimed(3,7) gone show ?thesis by auto
    next
      case (2 i n)
      from 2 have shape:
        "sends = (if gw cfg (gw_calls st) then [SendText p i n body True]
                  else if gw cfg (Suc (gw_calls st)) then
                    [SendText p i n body False, Sleep 1000, SendText p i n body True]
                  else if gw cfg (Suc (Suc (gw_calls st))) then
                    [SendText p i n body False, Sleep 1000, SendText p i n body False,
                     Sleep 2000, SendText p i n body True]
                  else
                    [SendText p i n body False, Sleep 1000, SendText p i n body False,
                     Sleep 2000, SendText p i n body False])"
        unfolding retry_three calls by (simp split: if_splits)
      show ?thesis
        apply (rule exI[where x = i])
        apply (rule exI[where x = n])
        apply (rule exI[where x = body])
        apply (rule exI[where x = sends])
        using claimed(3,7) gone shape by simp
    qed
  next
    case cleanup
    with claimed show ?thesis by simp
  next
    case skip
    with claimed show ?thesis by simp
  next
    case discard
    with claimed show ?thesis by simp
  next
    case (lost r')
    with claimed show ?thesis by simp
  qed
qed

theorem send_retry_schedule_witness:
  "Claim example_path True
     \<in> set (fst (tick_entry (example_cfg up_from_third) (example_path, example_response)
                   (example_state [(example_path, example_response)])))
   \<and> \<not> gw (example_cfg up_from_third) 0 \<and> \<not> gw (example_cfg up_from_third) 1
   \<and> gw (example_cfg up_from_third) 2
   \<and> fst (tick_entry (example_cfg up_from_third) (example_path, example_response)
            (example_state [(example_path, example_response)]))
       = [Claim example_path True,
          SendText example_path ''inst1'' ''18095550100'' ''hola'' False, Sleep 1000,
          SendText example_path ''inst1'' ''18095550100'' ''hola'' False, Sleep 2000,
          SendText example_path ''inst1'' ''18095550100'' ''hola'' True,
          Remove example_path]
   \<and> map_of (respuestas (snd (tick_entry (example_cfg up_from_third)
                (example_path, example_response)
                (example_state [(example_path, example_response)])))) example_path = None"
proof -
  let ?cfg = "example_cfg up_from_third"
  let ?st = "example_state [(example_path, example_response)]"
  have run: "tick_entry ?cfg (example_path, example_response) ?st
      = (fst (tick_entry ?cfg (example_path, example_response) ?st),
         snd (tick_entry ?cfg (example_path, example_response) ?st))"
    by simp
  have evs: "fst (tick_entry ?cfg (example_path, example_response) ?st)
       = [Claim example_path True,
          SendText example_path ''inst1'' ''18095550100'' ''hola'' False, Sleep 1000,
          SendText example_path ''inst1'' ''18095550100'' ''hola'' False, Sleep 2000,
          SendText example_path ''inst1'' ''18095550100'' ''hola'' True,
          Remove example_path]"
    by code_simp
  have claimed: "Claim example_path True
      \<in> set (fst (tick_entry ?cfg (example_path, example_response) ?st))"
    unfolding evs by simp
  have gw: "\<not> gw ?cfg 0" "\<not> gw ?cfg 1" "gw ?cfg 2"
    by (simp_all add: example_cfg_def up_from_third_def)
  note T = send_retry_schedule[OF run claimed]
  show ?thesis using T evs claimed gw by simp
qed

text \<open>
  The claim as stated fails on the waits: when all three calls fail, the waits are
  1000 ms and 2000 ms, and the third failure is followed by the removal.
\<close>

theorem backoff_4s_counterexample:
  "fst (tick_entry (example_cfg always_down) (example_path, example_response)
          (example_state [(example_path, example_response)]))
     = [Claim example_path True,
        SendText example_path ''inst1'' ''18095550100'' ''hola'' False, Sleep 1000,
        SendText example_path ''inst1'' ''18095550100'' ''hola'' False, Sleep 2000,
        SendText example_path ''inst1'' ''18095550100'' ''hola'' False,
        Remove example_path]
   \<and> Sleep 4000 \<notin> set (fst (tick_entry (example_cfg always_down)
                              (example_path, example_response)
                              (example_state [(example_path, example_response)])))"
proof -
  have evs: "fst (tick_entry (example_cfg always_down) (example_path, example_response)
          (example_state [(example_path, example_response)]))
     = [Claim example_path True,
        SendText example_path ''inst1'' ''18095550100'' ''hola'' False, Sleep 1000,
        SendText example_path ''inst1'' ''18095550100'' ''hola'' False, Sleep 2000,
        SendText example_path ''inst1'' ''18095550100'' ''hola'' False,
        Remove example_path]"
    by code_simp
  show ?thesis unfolding evs by simp
qed

subsection \<open>The set of processed paths\<close>

text \<open>
  Claim C9. For an entry of a \<open>web_\<close> conversation, the loop body leaves the path of the
  entry out of \<open>processedResponses\<close> exactly when the entry was marked sent (the cleanup)
  or its claim committed (the \<open>finally\<close> block), and it changes the membership of no
  other path. When the body adds the path and then deletes the entry by the validity
  check or the startup guard, or loses the claim, the path is in the set afterwards.
  From then on, through any number of ticks in which the entries found at that path are
  not marked sent, the path stays in the set and no event is about it: an entry written
  again at the path is neither claimed, nor sent, nor removed.
\<close>

theorem dedup_path_kept:
  "(tick_entry cfg (p, r) st = (evs, st') \<and> startsWith (fst (snd p)) ''web_''
      \<longrightarrow> (p \<notin> processedResponses st' \<longleftrightarrow> r_enviado r = Some True \<or> Claim p True \<in> set evs)
        \<and> (\<forall>q. q \<noteq> p \<longrightarrow> (q \<in> processedResponses st' \<longleftrightarrow> q \<in> processedResponses st)))
   \<and> (tick_entry cfg (p, r) st = (evs, st') \<and> startsWith (fst (snd p)) ''web_''
        \<and> r_enviado r \<noteq> Some True \<and> p \<notin> processedResponses st
        \<and> (usable_text (r_text r) = None \<or> messageTimestamp r < serviceStartupTime cfg
            \<or> (\<exists>r'. map_of (respuestas st) p = Some r' \<and> r_enviado r' = Some True))
      \<longrightarrow> p \<in> processedResponses st' \<and> Claim p True \<notin> set evs)
   \<and> (run_ticks cfg stores s = (tevs, s') \<and> p \<in> processedResponses s
        \<and> (\<forall>found \<in> set stores. \<forall>r. (p, r) \<in> set found \<longrightarrow> r_enviado r \<noteq> Some True)
      \<longrightarrow> p \<in> processedResponses s' \<and> (\<forall>e \<in> set tevs. about e \<noteq> Some p))"
proof -
  have one: "(p \<notin> processedResponses st' \<longleftrightarrow> r_enviado r = Some True \<or> Claim p True \<in> set evs)
        \<and> (\<forall>q. q \<noteq> p \<longrightarrow> (q \<in> processedResponses st' \<longleftrightarrow> q \<in> processedResponses st))"
    if run: "tick_entry cfg (p, r) st = (evs, st')" and web: "startsWith (fst (snd p)) ''web_''"
    using tick_entry_membership[OF run web] tick_entry_other[OF run] by blast
  have two: "p \<in> processedResponses st' \<and> Claim p True \<notin> set evs"
    if run: "tick_entry cfg (p, r) st = (evs, st')" and web: "startsWith (fst (snd p)) ''web_''"
      and unsent: "r_enviado r \<noteq> Some True" and fresh: "p \<notin> processedResponses st"
      and kept: "usable_text (r_text r) = None \<or> messageTimestamp r < serviceStartupTime cfg
            \<or> (\<exists>r'. map_of (respuestas st) p = Some r' \<and> r_enviado r' = Some True)"
  proof -
    from run web have "process_entry cfg (p, r) st = (evs, st')"
      by (simp add: tick_entry_unfold)
    then show ?thesis
      using unsent fresh kept by (cases rule: process_entry_cases) auto
  qed
  have three: "p \<in> processedResponses s' \<and> (\<forall>e \<in> set tevs. about e \<noteq> Some p)"
    if "run_ticks cfg stores s = (tevs, s')" "p \<in> processedResponses s"
      "\<forall>found \<in> set stores. \<forall>r. (p, r) \<in> set found \<longrightarrow> r_enviado r \<noteq> Some True"
    using run_ticks_skips[OF that] .
  show ?thesis using one two three by blast
qed

theorem dedup_path_kept_witness:
  "startsWith (fst (snd example_path)) ''web_''
   \<and> r_enviado malformed_response \<noteq> Some True
   \<and> example_path \<notin> processedResponses (example_state [(example_path, malformed_response)])
   \<and> usable_text (r_text malformed_response) = None
   \<and> example_path \<in> processedResponses
        (snd (tick_entry (example_cfg always_up) (example_path, malformed_response)
                (example_state [(example_path, malformed_response)])))
   \<and> r_enviado example_response \<noteq> Some True
   \<and> example_path \<in> processedResponses
        (snd (run_ticks (example_cfg always_up)
                [[(example_path, example_response)], [(example_path, example_response)]]
                (snd (tick_entry (example_cfg always_up) (example_path, malformed_response)
                        (example_state [(example_path, malformed_response)])))))
   \<and> filter (\<lambda>e. about e = Some example_path)
        (fst (run_ticks (example_cfg always_up)
                [[(example_path, example_response)], [(example_path, example_response)]]
                (snd (tick_entry (example_cfg always_up) (example_path, malformed_response)
                        (example_state [(example_path, malformed_response)]))))) = []"
proof -
  let ?cfg = "example_cfg always_up"
  let ?st = "example_state [(example_path, malformed_response)]"
  let ?one = "tick_entry ?cfg (example_path, malformed_response) ?st"
  let ?stores = "[[(example_path, example_response)], [(example_path, example_response)]]"
  let ?later = "run_ticks ?cfg ?stores (snd ?one)"
  have run: "?one = (fst ?one, snd ?one)" by simp
  have later: "?later = (fst ?later, snd ?later)" by simp
  have web: "startsWith (fst (snd example_path)) ''web_''"
    by (simp add: example_path_def startsWith_def)
  have unsent: "r_enviado malformed_response \<noteq> Some True"
    by (simp add: malformed_response_def)
  have fresh: "example_path \<notin> processedResponses ?st"
    by (simp add: example_state_def)
  have bad: "usable_text (r_text malformed_response) = None"
    by (simp add: malformed_response_def)
  have unsent': "r_enviado example_response \<noteq> Some True"
    by (simp add: example_response_def)
  then have found:
    "\<forall>found \<in> set ?stores. \<forall>r. (example_path, r) \<in> set found \<longrightarrow> r_enviado r \<noteq> Some True"
    by simp
  note T = dedup_path_kept[where cfg = ?cfg and p = example_path and r = malformed_response
      and st = ?st and evs = "fst ?one" and st' = "snd ?one" and stores = ?stores
      and s = "snd ?one" and tevs = "fst ?later" and s' = "snd ?later"]
  from T run web unsent fresh bad
  have held: "example_path \<in> processedResponses (snd ?one)" by blast
  from T later held found
  have kept: "example_path \<in> processedResponses (snd ?later)
      \<and> (\<forall>e \<in> set (fst ?later). about e \<noteq> Some example_path)" by blast
  then have none: "filter (\<lambda>e. about e = Some example_path) (fst ?later) = []"
    by (simp add: filter_empty_conv)
  show ?thesis using web unsent fresh bad held unsent' kept none by blast
qed

subsection \<open>Two processes and one entry\<close>

text \<open>
  A process that loses the claim does nothing more with the entry: no gateway call, no
  removal, and the subtree is as it was.
\<close>

lemma lost_claim_skips:
  assumes "process_entry cfg (p, r) st = (evs, st')" "Claim p False \<in> set evs"
  shows "evs = [Claim p False]" and "respuestas st' = respuestas st"
  using assms by (cases rule: process_entry_cases; auto dest: send_claimed_cases(2))+

text \<open>
  Claim C1 fails on the code. Two processes read the subtree while the entry is pending.
  The first runs the loop body: it claims the entry, sends it and removes it. The second
  then runs the loop body on its snapshot: the child \<open>enviado\<close> of the removed entry is
  absent, so its transaction commits as well, and it sends the text of its snapshot a
  second time.
\<close>

theorem two_processes_send_twice:
  "fst (run_system example_db always_up [Snapshot 0, Snapshot 1, Entry 0, Entry 1] two_processes)
     = [(0, Claim example_path True),
        (0, SendText example_path ''inst1'' ''18095550100'' ''hola'' True),
        (0, Remove example_path),
        (1, Claim example_path True),
        (1, SendText example_path ''inst1'' ''18095550100'' ''hola'' True),
        (1, Remove example_path)]"
  by code_simp

section \<open>Properties of the webhook handler\<close>


lemma background_shapes:
  assumes "background d env body payload cache = (post, d', cache')"
  shows "\<exists>enriched.
     post \<in> {[SetChatInstance (p_slug payload) (p_chatId payload) (wb_instance body) (p_ts payload),
               LogError],
              [SetChatInstance (p_slug payload) (p_chatId payload) (wb_instance body) (p_ts payload),
               Enrich (p_chatId payload), LogError],
              [SetChatInstance (p_slug payload) (p_chatId payload) (wb_instance body) (p_ts payload),
               Enrich (p_chatId payload),
               PushMensaje (p_slug payload) (p_chatId payload) enriched, LogError],
              [SetChatInstance (p_slug payload) (p_chatId payload) (wb_instance body) (p_ts payload),
               Enrich (p_chatId payload),
               PushMensaje (p_slug payload) (p_chatId payload) enriched]}"
  using assms
  by (auto simp: background_def Let_def split: if_splits sum.splits prod.splits)

lemma lookup_slug_shapes:
  "fst (lookup_slug d env i) = [SlugLookup (render i)]
   \<or> fst (lookup_slug d env i) = [SlugLookup (render i), LogError]"
  by (simp add: lookup_slug_def)

lemma download_audio_effects:
  "\<forall>e \<in> set (fst (download_audio d env body)). \<not> is_respond e \<and> \<not> is_background e"
  by (simp add: download_audio_def Let_def)


lemma basePayload_ids:
  "p_chatId (basePayload body remoteJid phoneNumber chatId slug body_text messageType ts audio) = chatId"
  "p_slug (basePayload body remoteJid phoneNumber chatId slug body_text messageType ts audio) = slug"
  "p_ts (basePayload body remoteJid phoneNumber chatId slug body_text messageType ts audio) = ts"
  by (simp_all add: basePayload_def)

lemma background_no_respond:
  assumes "background d env body payload cache = (post, d', cache')"
  shows "\<forall>e \<in> set post. \<not> is_respond e \<and> \<not> is_slug_lookup e"
  using background_shapes[OF assms] by auto


lemma accept_message_shape:
  assumes run: "accept_message d env body cache pre body_text messageType audioData = (effs, d', cache')"
  shows "\<exists>chatId slug payload post.
       effs = pre @ fst (lookup_slug d env (wb_instance body))
                @ [Respond 200 (Accepted chatId slug)] @ post
     \<and> background d env body payload cache = (post, d', cache')
     \<and> p_chatId payload = chatId \<and> p_slug payload = slug"
proof -
  let ?remoteJid = "render (wb_remoteJid body)"
  let ?phone = "remove_first ''@s.whatsapp.net'' ?remoteJid"
  let ?chatId = "''web_'' @ ?phone"
  let ?ts = "(case wb_messageTimestamp body of Some t \<Rightarrow> t | None \<Rightarrow> env_now env div 1000) * 1000"
  obtain lookup slug where l: "lookup_slug d env (wb_instance body) = (lookup, slug)"
    by (metis surj_pair)
  let ?payload = "basePayload body ?remoteJid ?phone ?chatId slug body_text messageType ?ts audioData"
  obtain post d2 cache2 where b: "background d env body ?payload cache = (post, d2, cache2)"
    by (metis prod_cases3)
  from run l b have res: "effs = pre @ lookup @ [Respond 200 (Accepted ?chatId slug)] @ post"
    "d' = d2" "cache' = cache2"
    by (simp_all add: accept_message_def Let_def)
  have "effs = pre @ fst (lookup_slug d env (wb_instance body))
                @ [Respond 200 (Accepted ?chatId slug)] @ post
     \<and> background d env body ?payload cache = (post, d', cache')
     \<and> p_chatId ?payload = ?chatId \<and> p_slug ?payload = slug"
    using res l b by (simp add: basePayload_ids)
  then show ?thesis by blast
qed

lemma webhook_dropped_or_accepted:
  "(\<exists>status reply. (\<forall>chatId slug. reply \<noteq> Accepted chatId slug)
       \<and> webhook_evolution d env body cache = ([Respond status reply], d, cache))
   \<or> (\<exists>pre body_text messageType audioData.
        (pre = [] \<or> pre = fst (download_audio d env body))
        \<and> webhook_evolution d env body cache
          = accept_message d env body cache pre body_text messageType audioData)"
proof (cases "wb_event body \<noteq> Val ''messages.upsert''")
  case True
  then have "webhook_evolution d env body cache = ([Respond 200 EventIgnored], d, cache)"
    by (simp add: webhook_evolution_def)
  then show ?thesis by blast
next
  case upsert: False
  show ?thesis
  proof (cases "wb_fromMe body = Some True")
    case True
    with upsert
    have "webhook_evolution d env body cache = ([Respond 200 OwnMessageIgnored], d, cache)"
      by (simp add: webhook_evolution_def)
    then show ?thesis by blast
  next
    case other: False
    show ?thesis
    proof (cases "truthy (wb_remoteJid body)")
      case False
      with upsert other
      have "webhook_evolution d env body cache = ([Respond 400 MissingRemoteJid], d, cache)"
        by (simp add: webhook_evolution_def)
      then show ?thesis by blast
    next
      case jid: True
      show ?thesis
      proof (cases "wb_audioMessage body")
        case (Some audio)
        let ?seconds = "case am_seconds audio of Some n \<Rightarrow> n | None \<Rightarrow> 0"
        from Some upsert other jid
        have "webhook_evolution d env body cache
                = accept_message d env body cache (fst (download_audio d env body))
                    (''[Audio message - '' @ show_nat ?seconds @ ''s]'') ''audio''
                    (Some \<lparr> ad_base64 = snd (download_audio d env body),
                            ad_mimetype = render (js_or (am_mimetype audio) (Val ''audio/ogg'')),
                            ad_seconds = ?seconds \<rparr>)"
          by (simp add: webhook_evolution_def Let_def case_prod_beta)
        then show ?thesis by blast
      next
        case None
        let ?text = "render (js_or (wb_conversation body) (js_or (wb_extendedText body) (Val [])))"
        show ?thesis
        proof (cases "blank ?text")
          case True
          with upsert other jid None
          have "webhook_evolution d env body cache = ([Respond 200 EmptyMessageIgnored], d, cache)"
            by (simp add: webhook_evolution_def Let_def)
          then show ?thesis by blast
        next
          case False
          with upsert other jid None
          have "webhook_evolution d env body cache
                  = accept_message d env body cache [] ?text ''text'' None"
            by (simp add: webhook_evolution_def Let_def)
          then show ?thesis by blast
        qed
      qed
    qed
  qed
qed


lemma accepted_effects:
  assumes run: "accept_message d env body cache pre body_text messageType audioData = (effs, d', cache')"
    and pre: "pre = [] \<or> pre = fst (download_audio d env body)"
  shows "\<exists>chatId slug before post ts enriched.
       effs = before @ [Respond 200 (Accepted chatId slug)] @ post
     \<and> SlugLookup (render (wb_instance body)) \<in> set before
     \<and> filter is_background before = [] \<and> filter is_respond before = []
     \<and> filter is_respond post = [] \<and> filter is_slug_lookup post = []
     \<and> post \<in> {[SetChatInstance slug chatId (wb_instance body) ts, LogError],
                 [SetChatInstance slug chatId (wb_instance body) ts, Enrich chatId, LogError],
                 [SetChatInstance slug chatId (wb_instance body) ts, Enrich chatId,
                  PushMensaje slug chatId enriched, LogError],
                 [SetChatInstance slug chatId (wb_instance body) ts, Enrich chatId,
                  PushMensaje slug chatId enriched]}"
proof -
  from accept_message_shape[OF run] obtain chatId slug payload post where
    shape: "effs = pre @ fst (lookup_slug d env (wb_instance body))
                @ [Respond 200 (Accepted chatId slug)] @ post"
      "background d env body payload cache = (post, d', cache')"
      "p_chatId payload = chatId" "p_slug payload = slug"
    by blast
  let ?lookup = "fst (lookup_slug d env (wb_instance body))"
  let ?before = "pre @ ?lookup"
  have quiet: "filter is_background pre = []" "filter is_respond pre = []"
    using pre download_audio_effects[of d env body] by (auto simp: filter_empty_conv)
  have lookup: "SlugLookup (render (wb_instance body)) \<in> set ?lookup"
    "filter is_background ?lookup = []" "filter is_respond ?lookup = []"
    using lookup_slug_shapes[of d env "wb_instance body"] by auto
  from background_shapes[OF shape(2)] obtain enriched where
    post: "post \<in> {[SetChatInstance slug chatId (wb_instance body) (p_ts payload), LogError],
                 [SetChatInstance slug chatId (wb_instance body) (p_ts payload), Enrich chatId,
                  LogError],
                 [SetChatInstance slug chatId (wb_instance body) (p_ts payload), Enrich chatId,
                  PushMensaje slug chatId enriched, LogError],
                 [SetChatInstance slug chatId (wb_instance body) (p_ts payload), Enrich chatId,
                  PushMensaje slug chatId enriched]}"
    unfolding shape(3,4) by blast
  then have silent: "filter is_respond post = []" "filter is_slug_lookup post = []"
    by auto
  have "effs = ?before @ [Respond 200 (Accepted chatId slug)] @ post
     \<and> SlugLookup (render (wb_instance body)) \<in> set ?before
     \<and> filter is_background ?before = [] \<and> filter is_respond ?before = []
     \<and> filter is_respond post = [] \<and> filter is_slug_lookup post = []"
    using shape(1) quiet lookup silent by simp
  with post show ?thesis by blast
qed

text \<open>
  Claim C5, amended. Every run of the handler answers the caller exactly once. When the
  answer is the acknowledgement of an accepted message, the lookup of the slug (step 6)
  has been made before it, since the acknowledgement carries the slug, and none of the
  binding write, the enrichment and the append to the message log (steps 7 to 9) has;
  these follow the acknowledgement in this order, up to the first that fails. A failure
  among them is followed by the log of the error and by nothing else: no second answer
  goes to the caller.
\<close>

theorem ack_after_slug_lookup_before_background:
  assumes run: "webhook_evolution d env body cache = (effs, d', cache')"
  shows "length (filter is_respond effs) = 1
       \<and> (Respond 200 (Accepted chatId slug) \<in> set effs \<longrightarrow>
            (\<exists>before post ts enriched.
               effs = before @ [Respond 200 (Accepted chatId slug)] @ post
             \<and> SlugLookup (render (wb_instance body)) \<in> set before
             \<and> filter is_background before = [] \<and> filter is_respond before = []
             \<and> filter is_respond post = [] \<and> filter is_slug_lookup post = []
             \<and> post \<in> {[SetChatInstance slug chatId (wb_instance body) ts, LogError],
                 [SetChatInstance slug chatId (wb_instance body) ts, Enrich chatId, LogError],
                 [SetChatInstance slug chatId (wb_instance body) ts, Enrich chatId,
                  PushMensaje slug chatId enriched, LogError],
                 [SetChatInstance slug chatId (wb_instance body) ts, Enrich chatId,
                  PushMensaje slug chatId enriched]}))"
proof -
  from webhook_dropped_or_accepted[of d env body cache]
  consider status reply where "\<forall>c s. reply \<noteq> Accepted c s"
      "webhook_evolution d env body cache = ([Respond status reply], d, cache)"
    | pre body_text messageType audioData where "pre = [] \<or> pre = fst (download_audio d env body)"
      "webhook_evolution d env body cache
         = accept_message d env body cache pre body_text messageType audioData"
    by blast
  then show ?thesis
  proof cases
    case 1
    with run have effs: "effs = [Respond status reply]" by simp
    from 1(1) have "reply \<noteq> Accepted chatId slug" by blast
    then have "Respond 200 (Accepted chatId slug) \<notin> set effs"
      unfolding effs by simp
    moreover have "length (filter is_respond effs) = 1"
      unfolding effs by simp
    ultimately show ?thesis by blast
  next
    case 2
    with run have "accept_message d env body cache pre body_text messageType audioData
        = (effs, d', cache')" by simp
    from accepted_effects[OF this 2(1)] obtain c s before post ts enriched where
      parts: "effs = before @ [Respond 200 (Accepted c s)] @ post"
        "SlugLookup (render (wb_instance body)) \<in> set before"
        "filter is_background before = []" "filter is_respond before = []"
        "filter is_respond post = []" "filter is_slug_lookup post = []"
        "post \<in> {[SetChatInstance s c (wb_instance body) ts, LogError],
                 [SetChatInstance s c (wb_instance body) ts, Enrich c, LogError],
                 [SetChatInstance s c (wb_instance body) ts, Enrich c,
                  PushMensaje s c enriched, LogError],
                 [SetChatInstance s c (wb_instance body) ts, Enrich c,
                  PushMensaje s c enriched]}"
      by blast
    have one: "length (filter is_respond effs) = 1"
      using parts(1,4,5) by simp
    have same: "chatId = c \<and> slug = s" if "Respond 200 (Accepted chatId slug) \<in> set effs"
    proof -
      from that have "Respond 200 (Accepted chatId slug) \<in> set (filter is_respond effs)"
        by simp
      moreover have "filter is_respond effs = [Respond 200 (Accepted c s)]"
        using parts(1,4,5) by simp
      ultimately show ?thesis by simp
    qed
    show ?thesis
    proof (intro conjI impI)
      show "length (filter is_respond effs) = 1" by (rule one)
    next
      assume "Respond 200 (Accepted chatId slug) \<in> set effs"
      from same[OF this] parts
      show "\<exists>before post ts enriched.
               effs = before @ [Respond 200 (Accepted chatId slug)] @ post
             \<and> SlugLookup (render (wb_instance body)) \<in> set before
             \<and> filter is_background before = [] \<and> filter is_respond before = []
             \<and> filter is_respond post = [] \<and> filter is_slug_lookup post = []
             \<and> post \<in> {[SetChatInstance slug chatId (wb_instance body) ts, LogError],
                 [SetChatInstance slug chatId (wb_instance body) ts, Enrich chatId, LogError],
                 [SetChatInstance slug chatId (wb_instance body) ts, Enrich chatId,
                  PushMensaje slug chatId enriched, LogError],
                 [SetChatInstance slug chatId (wb_instance body) ts, Enrich chatId,
                  PushMensaje slug chatId enriched]}"
        by blast
    qed
  qed
qed

theorem ack_after_slug_lookup_before_background_witness:
  "Respond 200 (Accepted ''web_18095550100'' ''colmado'')
     \<in> set (fst (webhook_evolution example_db example_env example_body Map.empty))
   \<and> length (filter is_respond
        (fst (webhook_evolution example_db example_env example_body Map.empty))) = 1
   \<and> (\<exists>before post.
         fst (webhook_evolution example_db example_env example_body Map.empty)
           = before @ [Respond 200 (Accepted ''web_18095550100'' ''colmado'')] @ post
       \<and> SlugLookup (render (wb_instance example_body)) \<in> set before
       \<and> filter is_background before = [] \<and> filter is_respond post = [])"
proof -
  let ?run = "webhook_evolution example_db example_env example_body Map.empty"
  have run: "?run = (fst ?run, fst (snd ?run), snd (snd ?run))" by simp
  have accepted: "Respond 200 (Accepted ''web_18095550100'' ''colmado'') \<in> set (fst ?run)"
    by code_simp
  note T = ack_after_slug_lookup_before_background[OF run,
      where chatId = "''web_18095550100''" and slug = "''colmado''"]
  show ?thesis using T accepted by blast
qed

text \<open>
  The claim as stated fails on step 6: for an accepted text message the first call of
  the handler is the lookup of the slug, and the acknowledgement comes second.
\<close>

theorem ack_before_slug_lookup_counterexample:
  "take 2 (fst (webhook_evolution example_db example_env example_body Map.empty))
     = [SlugLookup ''inst1'', Respond 200 (Accepted ''web_18095550100'' ''colmado'')]"
  by code_simp

end
